theory Spec2Isabelle
  imports Main "HOL-Library.AList" "HOL-Library.Sublist"
begin

section \<open>The Mayo Clinic guideline scraper (\<^verbatim>\<open>scrapers/mayo/src/index.ts\<close>)\<close>

text \<open>
  A shallow embedding of \<^verbatim>\<open>index.ts\<close>. A JavaScript string is modelled as a
  \<^typ>\<open>string\<close>; a \<^typ>\<open>char\<close> stands for one UTF-16 code unit below 256, so the
  theorems speak about strings of such code units. The browser automation provider
  (puppeteer) and the file system are collaborators of the program: the browser is a
  parameter of the model, the file system and the console are part of the state.
\<close>

subsection \<open>Built-in string operations used by the source\<close>

text \<open>
  \<^verbatim>\<open>String.prototype.trim\<close> removes white space and line terminators at both ends
  (ECMA-262, 22.1.3.32). Of the code units below 256 these are TAB, LF, VT, FF, CR, SP
  and NBSP.
\<close>

definition WhiteSpace :: "char \<Rightarrow> bool" where
  "WhiteSpace c = (c = CHR 0x09 \<or> c = CHR 0x0A \<or> c = CHR 0x0B \<or> c = CHR 0x0C
     \<or> c = CHR 0x0D \<or> c = CHR 0x20 \<or> c = CHR 0xA0)"

definition trim :: "string \<Rightarrow> string" where
  "trim s = rev (dropWhile WhiteSpace (rev (dropWhile WhiteSpace s)))"

text \<open>\<^verbatim>\<open>Array.prototype.join\<close> on an array of strings.\<close>

fun join :: "string \<Rightarrow> string list \<Rightarrow> string" where
  "join sep [] = []"
| "join sep [x] = x"
| "join sep (x # y # ys) = x @ sep @ join sep (y # ys)"

text \<open>
  The regular expressions of the source use literal characters, the wildcard \<^verbatim>\<open>.\<close>,
  the repetition \<^verbatim>\<open>.*\<close> and a top-level alternative. \<^verbatim>\<open>.\<close> matches every code
  unit except a line terminator (LF and CR below 256). A regular expression is a list
  of alternatives, each a list of items.
\<close>

datatype re_item = Lit char | AnyChar | AnyStar

type_synonym regex = "re_item list list"

definition LineTerminator :: "char \<Rightarrow> bool" where
  "LineTerminator c = (c = CHR 0x0A \<or> c = CHR 0x0D)"

text \<open>\<open>match_here p s\<close>: the sequence \<open>p\<close> matches a prefix of \<open>s\<close>.\<close>

fun match_here :: "re_item list \<Rightarrow> string \<Rightarrow> bool" where
  "match_here [] s = True"
| "match_here (Lit c # p) [] = False"
| "match_here (Lit c # p) (x # xs) = (c = x \<and> match_here p xs)"
| "match_here (AnyChar # p) [] = False"
| "match_here (AnyChar # p) (x # xs) = (\<not> LineTerminator x \<and> match_here p xs)"
| "match_here (AnyStar # p) [] = match_here p []"
| "match_here (AnyStar # p) (x # xs) =
     (match_here p (x # xs) \<or> (\<not> LineTerminator x \<and> match_here (AnyStar # p) xs))"

text \<open>\<open>match_anywhere p s\<close>: the sequence \<open>p\<close> matches at some position of \<open>s\<close>.\<close>

fun match_anywhere :: "re_item list \<Rightarrow> string \<Rightarrow> bool" where
  "match_anywhere p [] = match_here p []"
| "match_anywhere p (x # xs) = (match_here p (x # xs) \<or> match_anywhere p xs)"

text \<open>
  \<^verbatim>\<open>s.match(re)\<close> used as a condition: the result is an array (truthy) when some
  alternative matches somewhere in \<open>s\<close>, and \<^verbatim>\<open>null\<close> otherwise.
\<close>

definition match :: "string \<Rightarrow> regex \<Rightarrow> bool" where
  "match s re = list_ex (\<lambda>p. match_anywhere p s) re"

definition lit :: "string \<Rightarrow> re_item list" where
  "lit s = map Lit s"

text \<open>
  \<^verbatim>\<open>s.match(x)\<close> with a string \<open>x\<close> compiles \<open>x\<close> to a regular expression. The strings
  passed by the source (\<^verbatim>\<open>toAvoid\<close>) contain no special character, so each is the
  literal sequence of its characters.
\<close>

definition RegExp :: "string \<Rightarrow> regex" where
  "RegExp x = [lit x]"

text \<open>\<^verbatim>\<open>s.replace(/&/g, '& ')\<close>: every \<^verbatim>\<open>&\<close> is replaced.\<close>

definition replace_amp :: "string \<Rightarrow> string" where
  "replace_amp s = concat (map (\<lambda>c. if c = CHR ''&'' then ''& '' else [c]) s)"

subsection \<open>Data model\<close>

text \<open>
  \<^verbatim>\<open>interface Dictionary<T> { [Key: string]: T }\<close>: a string-keyed object, created
  by \<^verbatim>\<open>{}\<close>. The association list holds its own properties, the keys in insertion
  order.
\<close>

type_synonym 'a Dictionary = "(string \<times> 'a) list"

text \<open>
  The assignment \<^verbatim>\<open>d[k] = v\<close>. It replaces the value of an existing key in place and
  appends a new key at the end (\<^const>\<open>AList.update\<close>), except for the key
  \<^verbatim>\<open>__proto__\<close>: this is an accessor of \<^verbatim>\<open>Object.prototype\<close>, the assignment calls
  its setter and the object gets no own property.
\<close>

definition dict_set :: "string \<Rightarrow> 'a \<Rightarrow> 'a Dictionary \<Rightarrow> 'a Dictionary" where
  "dict_set k v d = (if k = ''__proto__'' then d else AList.update k v d)"

record Guideline =
  name :: string
  url :: string
  content :: "string Dictionary Dictionary"

text \<open>
  What the source reads from an element handle returned by \<^verbatim>\<open>page.$$\<close>: its
  \<^verbatim>\<open>tagName\<close>, its \<^verbatim>\<open>textContent\<close> (nullable in the DOM typings), and the
  \<^verbatim>\<open>tagName\<close> and \<^verbatim>\<open>className\<close> of \<^verbatim>\<open>parentElement\<close>, of its parent, and so on up
  to the root.
\<close>

record element =
  tagName :: string
  textContent :: "string option"
  parents :: "(string \<times> string) list"

subsection \<open>The DOM classification loop of \<^verbatim>\<open>getSectionContent\<close>\<close>

text \<open>The function evaluated in the page for \<^verbatim>\<open>parentPath\<close> (lines 146-154).\<close>

fun parentPath :: "(string \<times> string) list \<Rightarrow> string" where
  "parentPath [] = ''''"
| "parentPath ((tag, cls) # ps) = tag @ ''.'' @ cls @ '' '' @ parentPath ps"

text \<open>\<^verbatim>\<open>/DIV\.content.*DIV\.content/\<close>\<close>

definition nested_content_re :: regex where
  "nested_content_re = [lit ''DIV.content'' @ [AnyStar] @ lit ''DIV.content'']"

definition toAvoid :: "string list" where
  "toAvoid = [''references'', ''acces-list-container'', ''tableofcontents'']"

text \<open>\<^verbatim>\<open>el.textContent?.trim() || ''\<close>\<close>

definition element_text :: "element \<Rightarrow> string" where
  "element_text el = (case textContent el of None \<Rightarrow> '''' | Some t \<Rightarrow> trim t)"

text \<open>The three \<^verbatim>\<open>continue\<close> statements of the loop (lines 143-161).\<close>

definition filtered_out :: "element \<Rightarrow> bool" where
  "filtered_out el =
     (if element_text el = '''' then True
      else if match (parentPath (parents el)) nested_content_re then True
      else if list_ex (\<lambda>x. match (parentPath (parents el)) (RegExp x)) toAvoid then True
      else False)"

text \<open>
  The loop variables \<^verbatim>\<open>subsection_dict\<close>, \<^verbatim>\<open>subsection_text\<close> and
  \<^verbatim>\<open>subsection_head\<close>.
\<close>

record accumulator =
  subsection_dict :: "string Dictionary"
  subsection_text :: string
  subsection_head :: string

text \<open>One iteration of the loop over \<^verbatim>\<open>sections\<close> (lines 139-176).\<close>

definition classify_element :: "element \<Rightarrow> accumulator \<Rightarrow> accumulator" where
  "classify_element el acc =
     (if filtered_out el then acc
      else if tagName el = ''H2'' then
        (if subsection_head acc \<noteq> '''' then
           acc\<lparr>subsection_dict :=
                 dict_set (subsection_head acc) (trim (subsection_text acc)) (subsection_dict acc),
               subsection_text := '''',
               subsection_head := element_text el\<rparr>
         else acc\<lparr>subsection_head := element_text el\<rparr>)
      else if tagName el = ''LI'' then
        acc\<lparr>subsection_text := subsection_text acc @ [CHR 0x0A] @ ''- '' @ element_text el\<rparr>
      else if tagName el = ''P'' then
        acc\<lparr>subsection_text := subsection_text acc @ [CHR 0x0A] @ element_text el\<rparr>
      else acc)"

fun classify_loop :: "element list \<Rightarrow> accumulator \<Rightarrow> accumulator" where
  "classify_loop [] acc = acc"
| "classify_loop (el # els) acc = classify_loop els (classify_element el acc)"

text \<open>
  Lines 136-178: the loop starts from the empty dictionary and empty text and head, and
  the dictionary is returned as it is when the loop ends.
\<close>

definition classify :: "element list \<Rightarrow> string Dictionary" where
  "classify sections =
     subsection_dict (classify_loop sections
       \<lparr>subsection_dict = [], subsection_text = '''', subsection_head = ''''\<rparr>)"

subsection \<open>\<^verbatim>\<open>JSON.stringify\<close> on a \<^verbatim>\<open>Guideline\<close>\<close>

text \<open>
  \<^verbatim>\<open>QuoteJSONString\<close> (ECMA-262, 25.5.2.3): backspace, tab, line feed, form feed,
  carriage return, the double quote and the backslash have a two-character escape, every
  other code unit below \<^verbatim>\<open>0x20\<close> becomes \<^verbatim>\<open>\u00XX\<close> with lower-case hexadecimal
  digits, and every other code unit stands for itself.
\<close>

definition hex_digit :: "nat \<Rightarrow> char" where
  "hex_digit n = (if n < 10 then char_of (48 + n) else char_of (87 + n))"

definition quote_char :: "char \<Rightarrow> string" where
  "quote_char c =
     (if c = CHR 0x08 then [CHR 0x5C, CHR ''b'']
      else if c = CHR 0x09 then [CHR 0x5C, CHR ''t'']
      else if c = CHR 0x0A then [CHR 0x5C, CHR ''n'']
      else if c = CHR 0x0C then [CHR 0x5C, CHR ''f'']
      else if c = CHR 0x0D then [CHR 0x5C, CHR ''r'']
      else if c = CHR 0x22 then [CHR 0x5C, CHR 0x22]
      else if c = CHR 0x5C then [CHR 0x5C, CHR 0x5C]
      else if (of_char c :: nat) < 32 then
        [CHR 0x5C, CHR ''u'', CHR ''0'', CHR ''0'',
         hex_digit ((of_char c :: nat) div 16), hex_digit ((of_char c :: nat) mod 16)]
      else [c])"

definition QuoteJSONString :: "string \<Rightarrow> string" where
  "QuoteJSONString s = [CHR 0x22] @ concat (map quote_char s) @ [CHR 0x22]"

text \<open>
  The own property keys of an object are enumerated with the array indices first, in
  ascending numeric order, and then the other keys in insertion order (ECMA-262,
  10.1.11). An array index is the canonical decimal string of an integer below
  \<open>2\<^sup>3\<^sup>2 - 1\<close>.
\<close>

definition is_digit :: "char \<Rightarrow> bool" where
  "is_digit c = (48 \<le> (of_char c :: nat) \<and> (of_char c :: nat) \<le> 57)"

definition decimal :: "string \<Rightarrow> int" where
  "decimal k = foldl (\<lambda>n c. 10 * n + ((of_char c :: int) - 48)) 0 k"

definition is_array_index :: "string \<Rightarrow> bool" where
  "is_array_index k =
     (k \<noteq> [] \<and> list_all is_digit k \<and> (k = ''0'' \<or> hd k \<noteq> CHR ''0'') \<and> decimal k < 4294967295)"

definition OwnPropertyEntries :: "'a Dictionary \<Rightarrow> 'a Dictionary" where
  "OwnPropertyEntries d =
     sort_key (\<lambda>kv. decimal (fst kv)) (filter (\<lambda>kv. is_array_index (fst kv)) d)
     @ filter (\<lambda>kv. \<not> is_array_index (fst kv)) d"

text \<open>
  \<^verbatim>\<open>SerializeJSONObject\<close> with an empty gap (the third argument of
  \<^verbatim>\<open>JSON.stringify\<close> is 0): the members \<^verbatim>\<open>"key":value\<close> separated by commas, in
  braces.
\<close>

definition SerializeJSONObject :: "('a \<Rightarrow> string) \<Rightarrow> 'a Dictionary \<Rightarrow> string" where
  "SerializeJSONObject f d =
     ''{'' @ join '','' (map (\<lambda>kv. QuoteJSONString (fst kv) @ '':'' @ f (snd kv))
                          (OwnPropertyEntries d)) @ ''}''"

text \<open>
  A \<^verbatim>\<open>Guideline\<close> has the own properties \<^verbatim>\<open>name\<close>, \<^verbatim>\<open>url\<close> and \<^verbatim>\<open>content\<close>,
  created in this order by the constructor.
\<close>

definition JSON_stringify :: "Guideline \<Rightarrow> string" where
  "JSON_stringify g =
     ''{'' @ join '',''
       [QuoteJSONString ''name'' @ '':'' @ QuoteJSONString (name g),
        QuoteJSONString ''url'' @ '':'' @ QuoteJSONString (url g),
        QuoteJSONString ''content'' @ '':''
          @ SerializeJSONObject (SerializeJSONObject QuoteJSONString) (content g)] @ ''}''"

subsection \<open>The browser, the file system and the console\<close>

text \<open>\<^verbatim>\<open>new Error(message)\<close>, also for the errors thrown by the browser.\<close>

datatype error = Error string

text \<open>
  A loaded page answers the three kinds of query the source makes, each by selector:
  \<^verbatim>\<open>$eval(selector, ...)\<close> finds an element or not, \<^verbatim>\<open>$$eval(selector, ...)\<close> with
  the function of \<^verbatim>\<open>get_links\<close> gives the pairs \<^verbatim>\<open>[a.textContent, a.href]\<close>, and
  \<^verbatim>\<open>$$(selector)\<close> gives the matching elements in document order.
\<close>

record page =
  exists_sel :: "string \<Rightarrow> bool"
  anchors :: "string \<Rightarrow> (string \<times> string) list"
  query_all :: "string \<Rightarrow> element list"

text \<open>
  The browser automation provider: the \<open>n\<close>-th call of \<^verbatim>\<open>page.goto\<close> of the run, on
  a URL, throws or loads a page. Queries on a loaded page do not throw.
\<close>

type_synonym browser = "nat \<Rightarrow> string \<Rightarrow> error + page"

text \<open>One constructor for each \<^verbatim>\<open>console.log\<close> of the source, with the values it prints.\<close>

datatype message =
    CouldntFindContentSelector
  | SectionInfo string string
  | LetterInfo string string
  | GuidelineInfo nat nat string string
  | AlreadySaved string
  | NotDiseasesURL
  | NotSymptomsOrDiagnosisPage
  | EmptyContent string
  | SavedGuideline
  | ErrorRetrying string error
  | AllAttemptsFailed string
  | NoGuidelinesFound string
  | ScrapeSummary "(string \<times> nat) list"
  | ErrorWhileScraping error

datatype event = Goto string | Sleep int | WaitForTimeout int | ConsoleLog message

text \<open>
  The state of a run: the number of navigations so far, the loaded page, the files
  (each the list of the chunks appended to it, so its contents are their
  concatenation), the trace of navigations, awaited pauses and console lines, and the
  variables of \<^verbatim>\<open>scrape\<close> that outlive one iteration. Appending to a file is taken to
  succeed.
\<close>

record run =
  navigations :: nat
  loaded :: page
  files :: "string \<Rightarrow> string list"
  trace :: "event list"
  traversed_pages :: "string set"
  guides_saved_for_letter :: nat
  scrape_summary :: "(string \<times> nat) list"

definition TOC_URL :: string where
  "TOC_URL = ''https://www.mayoclinic.org/diseases-conditions/index''"

definition OUTPUT_PATH :: string where
  "OUTPUT_PATH = ''mayo_guidelines.jsonl''"

definition TOC_OUTPUT_FILE :: string where
  "TOC_OUTPUT_FILE = ''mayo_toc.txt''"

definition VERBOSE :: bool where
  "VERBOSE = True"

definition BACKOFF_TIMEOUT_SEC :: int where
  "BACKOFF_TIMEOUT_SEC = 10000"

definition FAILURE_BACKOFF_TIMEOUT_SEC :: int where
  "FAILURE_BACKOFF_TIMEOUT_SEC = 300000"

definition TOC_RESULT_ITEM_SELECTOR :: string where
  "TOC_RESULT_ITEM_SELECTOR = ''#cmp-skip-to-main__content a''"

definition PAGE_SECTION_SELECTOR :: string where
  "PAGE_SECTION_SELECTOR = ''#access-nav a, div.cmp-tab-navigation-tabs a''"

definition CONTENT_SUBSELECTORS :: "string list" where
  "CONTENT_SUBSELECTORS = [''li'', ''h2'', ''p'']"

definition log :: "message \<Rightarrow> run \<Rightarrow> run" where
  "log m s = s\<lparr>trace := trace s @ [ConsoleLog m]\<rparr>"

definition sleep :: "int \<Rightarrow> run \<Rightarrow> run" where
  "sleep ms s = s\<lparr>trace := trace s @ [Sleep ms]\<rparr>"

definition waitForTimeout :: "int \<Rightarrow> run \<Rightarrow> run" where
  "waitForTimeout ms s = s\<lparr>trace := trace s @ [WaitForTimeout ms]\<rparr>"

definition goto :: "browser \<Rightarrow> string \<Rightarrow> run \<Rightarrow> (error + unit) \<times> run" where
  "goto B u s =
     (let s1 = s\<lparr>navigations := Suc (navigations s), trace := trace s @ [Goto u]\<rparr>
      in case B (navigations s) u of
           Inl e \<Rightarrow> (Inl e, s1)
         | Inr p \<Rightarrow> (Inr (), s1\<lparr>loaded := p\<rparr>))"

definition get_links :: "run \<Rightarrow> string \<Rightarrow> (string \<times> string) list" where
  "get_links s selector = anchors (loaded s) selector"

text \<open>\<^verbatim>\<open>$eval(selector, () => true).catch(() => false)\<close>\<close>

definition check_sel :: "run \<Rightarrow> string \<Rightarrow> bool" where
  "check_sel s selector = exists_sel (loaded s) selector"

definition appendFileSync :: "string \<Rightarrow> string \<Rightarrow> run \<Rightarrow> run" where
  "appendFileSync path data s = s\<lparr>files := (files s)(path := files s path @ [data])\<rparr>"

definition save_guideline :: "Guideline \<Rightarrow> string \<Rightarrow> run \<Rightarrow> run" where
  "save_guideline guideline path s = appendFileSync path (JSON_stringify guideline @ [CHR 0x0A]) s"

definition save_metadata :: "string \<Rightarrow> string \<Rightarrow> run \<Rightarrow> run" where
  "save_metadata title path s = appendFileSync path (title @ [CHR 0x0A]) s"

subsection \<open>The section extractor\<close>

text \<open>
  \<^verbatim>\<open>getSectionContent\<close> (lines 111-179). The pause after the navigation is not
  awaited by the source, so it leaves no event in the trace.
\<close>

definition getSectionContent :: "browser \<Rightarrow> string \<Rightarrow> run \<Rightarrow> (error + string Dictionary) \<times> run" where
  "getSectionContent B section_url s =
     (case goto B section_url s of
        (Inl e, s1) \<Rightarrow> (Inl e, s1)
      | (Inr _, s1) \<Rightarrow>
          (let base_sel = (if check_sel s1 ''div.content'' then ''div.content''
                           else ''div.aem-GridColumn section'');
               selectors = map (\<lambda>subsel. base_sel @ '' '' @ subsel) CONTENT_SUBSELECTORS
           in if length selectors = 0 then (Inr [], log CouldntFindContentSelector s1)
              else (let content_selector = join '', '' selectors;
                        sections = query_all (loaded s1) content_selector
                    in (Inr (classify sections), s1))))"

text \<open>\<^verbatim>\<open>/Symptoms|Diagnosis/\<close>\<close>

definition section_name_re :: regex where
  "section_name_re = [lit ''Symptoms'', lit ''Diagnosis'']"

text \<open>The loop over \<^verbatim>\<open>section_links\<close> in \<^verbatim>\<open>getGuideline\<close> (lines 185-199).\<close>

fun section_links_loop ::
  "browser \<Rightarrow> (string \<times> string) list \<Rightarrow> string Dictionary Dictionary \<Rightarrow> run
     \<Rightarrow> (error + string Dictionary Dictionary) \<times> run" where
  "section_links_loop B [] content' s = (Inr content', s)"
| "section_links_loop B (el # els) content' s =
     (let section_name = replace_amp (fst el);
          section_url = snd el
      in if \<not> match section_name section_name_re then section_links_loop B els content' s
         else (case getSectionContent B section_url s of
                 (Inl e, s1) \<Rightarrow> (Inl e, s1)
               | (Inr section_content, s1) \<Rightarrow>
                   section_links_loop B els
                     (dict_set section_name section_content content')
                     (if VERBOSE then log (SectionInfo section_name section_url) s1 else s1)))"

definition getGuideline :: "browser \<Rightarrow> string \<Rightarrow> string \<Rightarrow> run \<Rightarrow> (error + Guideline) \<times> run" where
  "getGuideline B nm u s =
     (let section_links = get_links s PAGE_SECTION_SELECTOR
      in case section_links_loop B section_links [] s of
           (Inl e, s1) \<Rightarrow> (Inl e, s1)
         | (Inr c, s1) \<Rightarrow> (Inr \<lparr>name = nm, url = u, content = c\<rparr>, s1))"

subsection \<open>The traversal controller\<close>

text \<open>\<^verbatim>\<open>/mayoclinic.org\/diseases-conditions/\<close>: the dot is a wildcard.\<close>

definition diseases_re :: regex where
  "diseases_re = [lit ''mayoclinic'' @ [AnyChar] @ lit ''org/diseases-conditions'']"

text \<open>\<^verbatim>\<open>/\/symptoms-causes/\<close> and \<^verbatim>\<open>/\/diagnosis-treatment/\<close>\<close>

definition symptoms_causes_re :: regex where
  "symptoms_causes_re = [lit ''/symptoms-causes'']"

definition diagnosis_treatment_re :: regex where
  "diagnosis_treatment_re = [lit ''/diagnosis-treatment'']"

text \<open>
  The condition \<^verbatim>\<open>!guideline.content\<close> (line 251) applies \<^verbatim>\<open>ToBoolean\<close> to an
  object, and every object is truthy, the one without keys too (ECMA-262, 7.1.2).
\<close>

definition ToBoolean :: "'a Dictionary \<Rightarrow> bool" where
  "ToBoolean obj = True"

text \<open>The body of the \<^verbatim>\<open>try\<close> block of one attempt (lines 247-261).\<close>

definition attempt :: "browser \<Rightarrow> string \<Rightarrow> string \<Rightarrow> run \<Rightarrow> (error + unit) \<times> run" where
  "attempt B page_name page_url s =
     (case goto B page_url (sleep BACKOFF_TIMEOUT_SEC s) of
        (Inl e, s1) \<Rightarrow> (Inl e, s1)
      | (Inr _, s1) \<Rightarrow>
          (case getGuideline B page_name page_url s1 of
             (Inl e, s2) \<Rightarrow> (Inl e, s2)
           | (Inr guideline, s2) \<Rightarrow>
               if \<not> ToBoolean (content guideline) then
                 (Inl (Error ''No content found for guideline''), log (EmptyContent page_name) s2)
               else
                 (let s3 = save_guideline guideline OUTPUT_PATH s2;
                      s4 = s3\<lparr>guides_saved_for_letter := Suc (guides_saved_for_letter s3)\<rparr>;
                      s5 = s4\<lparr>traversed_pages := insert page_name (traversed_pages s4)\<rparr>;
                      s6 = save_metadata (name guideline) TOC_OUTPUT_FILE s5
                  in (Inr (), log SavedGuideline s6))))"

text \<open>
  The retry loop (lines 244-267), from attempt \<open>i\<close> on; the result is
  \<^verbatim>\<open>guideline_saved\<close>.
\<close>

function retry_loop :: "browser \<Rightarrow> string \<Rightarrow> string \<Rightarrow> nat \<Rightarrow> run \<Rightarrow> bool \<times> run" where
  "retry_loop B page_name page_url i s =
     (if i < 5 then
        (case attempt B page_name page_url s of
           (Inr _, s1) \<Rightarrow> (True, s1)
         | (Inl e, s1) \<Rightarrow>
             retry_loop B page_name page_url (Suc i)
               (sleep FAILURE_BACKOFF_TIMEOUT_SEC (log (ErrorRetrying page_name e) s1)))
      else (False, s))"
  by pat_completeness auto
termination
  by (relation "measure (\<lambda>(B, page_name, page_url, i, s). 5 - i)") auto

declare retry_loop.simps [simp del]

text \<open>The body of the loop over \<^verbatim>\<open>toc_links\<close> for one entry (lines 228-270).\<close>

definition toc_entry :: "browser \<Rightarrow> nat \<Rightarrow> nat \<Rightarrow> string \<times> string \<Rightarrow> run \<Rightarrow> run" where
  "toc_entry B toc_index toc_length el s =
     (let page_name = fst el;
          page_url = snd el;
          s1 = log (GuidelineInfo toc_index toc_length page_name page_url) s
      in if page_name \<in> traversed_pages s1 then log (AlreadySaved page_name) s1
         else if \<not> match page_url diseases_re then log NotDiseasesURL s1
         else if \<not> (match page_url symptoms_causes_re \<or> match page_url diagnosis_treatment_re)
           then log NotSymptomsOrDiagnosisPage s1
         else (case retry_loop B page_name page_url 0 s1 of
                 (guideline_saved, s2) \<Rightarrow>
                   if \<not> guideline_saved then log (AllAttemptsFailed page_name) s2 else s2))"

fun toc_loop :: "browser \<Rightarrow> nat \<Rightarrow> nat \<Rightarrow> (string \<times> string) list \<Rightarrow> run \<Rightarrow> run" where
  "toc_loop B toc_length toc_index [] s = s"
| "toc_loop B toc_length toc_index (el # els) s =
     toc_loop B toc_length (Suc toc_index) els (toc_entry B toc_index toc_length el s)"

text \<open>The body of the loop over the letters (lines 214-276), for the letter of code \<open>c\<close>.\<close>

definition letter_body :: "browser \<Rightarrow> nat \<Rightarrow> run \<Rightarrow> (error + unit) \<times> run" where
  "letter_body B c s =
     (let letter = [char_of c];
          letter_URL = TOC_URL @ ''?letter='' @ letter
      in case goto B letter_URL (s\<lparr>guides_saved_for_letter := 0\<rparr>) of
           (Inl e, s1) \<Rightarrow> (Inl e, s1)
         | (Inr _, s1) \<Rightarrow>
             (let s2 = log (LetterInfo letter letter_URL) (waitForTimeout BACKOFF_TIMEOUT_SEC s1);
                  s3 = (if check_sel s2 TOC_RESULT_ITEM_SELECTOR then
                          (let toc_links = get_links s2 TOC_RESULT_ITEM_SELECTOR
                           in toc_loop B (length toc_links) 0 toc_links s2)
                        else log (NoGuidelinesFound letter) s2);
                  s4 = s3\<lparr>scrape_summary := scrape_summary s3 @ [(letter, guides_saved_for_letter s3)]\<rparr>
              in (Inr (), log (ScrapeSummary (scrape_summary s4)) s4)))"

text \<open>
  The loop over the letters: \<open>c\<close> is the character code of \<^verbatim>\<open>letter\<close>, from 65
  (\<^verbatim>\<open>'A'\<close>) while it is at most 90 (\<^verbatim>\<open>'Z'\<close>).
\<close>

function letters_loop :: "browser \<Rightarrow> nat \<Rightarrow> run \<Rightarrow> (error + unit) \<times> run" where
  "letters_loop B c s =
     (if c \<le> 90 then
        (case letter_body B c s of
           (Inl e, s1) \<Rightarrow> (Inl e, s1)
         | (Inr _, s1) \<Rightarrow> letters_loop B (Suc c) s1)
      else (Inr (), s))"
  by pat_completeness auto
termination
  by (relation "measure (\<lambda>(B, c, s). 91 - c)") auto

declare letters_loop.simps [simp del]

text \<open>\<^verbatim>\<open>scrape\<close> (lines 207-283); the result is \<^verbatim>\<open>all_good\<close>.\<close>

definition scrape :: "browser \<Rightarrow> run \<Rightarrow> bool \<times> run" where
  "scrape B s =
     (case letters_loop B 65 (s\<lparr>traversed_pages := {}, scrape_summary := []\<rparr>) of
        (Inl e, s1) \<Rightarrow> (False, log (ErrorWhileScraping e) s1)
      | (Inr _, s1) \<Rightarrow> (True, s1))"

subsection \<open>\<^verbatim>\<open>JSON.parse\<close> on a line of the sink\<close>














subsection \<open>Events of the trace\<close>

text \<open>
  The events that an extraction (\<^const>\<open>getGuideline\<close>) adds to the trace: navigations
  and the console line of a stored section.
\<close>

fun extraction_event :: "event \<Rightarrow> bool" where
  "extraction_event (Goto u) = True"
| "extraction_event (ConsoleLog (SectionInfo section_name section_url)) = True"
| "extraction_event ev = False"



text \<open>
  The records appended to the sink since the state \<open>s0\<close> have pairwise distinct names,
  and each name is in the visited set.
\<close>

definition saved_once :: "run \<Rightarrow> run \<Rightarrow> bool" where
  "saved_once s0 s \<longleftrightarrow>
     (\<exists>gs. files s OUTPUT_PATH = files s0 OUTPUT_PATH @ map (\<lambda>g. JSON_stringify g @ [CHR 0x0A]) gs
        \<and> name ` set gs \<subseteq> traversed_pages s \<and> distinct (map name gs))"

section \<open>Sample inputs\<close>

text \<open>Concrete pages and runs, at which the theorems below are instantiated.\<close>

definition article_parents :: "(string \<times> string) list" where
  "article_parents = [(''DIV'', ''content''), (''ARTICLE'', ''main''), (''BODY'', []), (''HTML'', [])]"

definition article_element :: "string \<Rightarrow> string \<Rightarrow> element" where
  "article_element tag text = \<lparr>tagName = tag, textContent = Some text, parents = article_parents\<rparr>"

definition sample_sections :: "element list" where
  "sample_sections =
     [article_element ''H2'' '' A '', article_element ''P'' ''x'', article_element ''P'' ''  '',
      article_element ''LI'' ''y'', article_element ''H2'' ''B'', article_element ''P'' ''z'']"

definition blank_page :: page where
  "blank_page = \<lparr>exists_sel = (\<lambda>sel. False), anchors = (\<lambda>sel. []), query_all = (\<lambda>sel. [])\<rparr>"

definition section_page :: page where
  "section_page =
     \<lparr>exists_sel = (\<lambda>sel. sel = ''div.content''),
      anchors = (\<lambda>sel. []),
      query_all = (\<lambda>sel. if sel = ''div.content li, div.content h2, div.content p''
                          then sample_sections else [])\<rparr>"

text \<open>A page whose \<^verbatim>\<open>div.content\<close> holds the given elements.\<close>

definition content_page :: "element list \<Rightarrow> page" where
  "content_page sections =
     \<lparr>exists_sel = (\<lambda>sel. sel = ''div.content''),
      anchors = (\<lambda>sel. []),
      query_all = (\<lambda>sel. if sel = ''div.content li, div.content h2, div.content p''
                          then sections else [])\<rparr>"

definition fresh_run :: run where
  "fresh_run =
     \<lparr>navigations = 0, loaded = blank_page, files = (\<lambda>path. []), trace = [],
      traversed_pages = {}, guides_saved_for_letter = 0, scrape_summary = []\<rparr>"

definition nested_element :: element where
  "nested_element =
     \<lparr>tagName = ''P'', textContent = Some ''Related content'',
      parents = [(''DIV'', ''content''), (''DIV'', ''content''), (''ARTICLE'', ''main''),
                 (''BODY'', []), (''HTML'', [])]\<rparr>"

definition newline_nested_element :: element where
  "newline_nested_element =
     \<lparr>tagName = ''P'', textContent = Some ''Related content'',
      parents = [(''DIV'', ''content''), (''DIV'', ''row'' @ [CHR 0x0A] @ ''wide''),
                 (''DIV'', ''content''), (''BODY'', []), (''HTML'', [])]\<rparr>"

definition acne_url :: string where
  "acne_url = ''https://www.mayoclinic.org/diseases-conditions/acne/symptoms-causes/syc-20368047''"

definition acne_diagnosis_url :: string where
  "acne_diagnosis_url = ''https://www.mayoclinic.org/diseases-conditions/acne/diagnosis-treatment/drc-20368048''"

definition acne_tabs :: "(string \<times> string) list" where
  "acne_tabs =
     [(''Overview'', ''https://www.mayoclinic.org/diseases-conditions/acne''),
      (''Symptoms &causes'', acne_url),
      (''Diagnosis & treatment'', acne_diagnosis_url),
      (''Doctors & departments'', ''https://www.mayoclinic.org/diseases-conditions/acne/doctors-departments/ddc-20368049'')]"

definition acne_page :: page where
  "acne_page =
     \<lparr>exists_sel = (\<lambda>sel. sel = ''div.content''),
      anchors = (\<lambda>sel. if sel = ''#access-nav a, div.cmp-tab-navigation-tabs a'' then acne_tabs else []),
      query_all = (\<lambda>sel. if sel = ''div.content li, div.content h2, div.content p''
                          then sample_sections else [])\<rparr>"

definition always :: "page \<Rightarrow> browser" where
  "always p = (\<lambda>n u. Inr p)"

definition acne_guideline :: Guideline where
  "acne_guideline =
     \<lparr>name = ''Acne'', url = acne_url,
      content = [(''Symptoms & causes'', [(''A'', ''x'' @ [CHR 0x0A] @ ''- y'')]),
                 (''Diagnosis &  treatment'', [(''A'', ''x'' @ [CHR 0x0A] @ ''- y'')])]\<rparr>"

definition acne_or_blank :: browser where
  "acne_or_blank = (\<lambda>n u. Inr (if u = acne_url then acne_page else blank_page))"

definition down :: browser where
  "down = (\<lambda>n u. Inl (Error ''net::ERR_CONNECTION_RESET''))"

definition lifestyle_url :: string where
  "lifestyle_url = ''https://www.mayoclinic.org/healthy-lifestyle/fitness/in-depth/exercise/art-20048389''"

definition acne_doctors_url :: string where
  "acne_doctors_url = ''https://www.mayoclinic.org/diseases-conditions/acne/doctors-departments/ddc-20368049''"

section \<open>Properties\<close>

subsection \<open>What the regular expressions of the source match\<close>

lemma match_here_lit_append:
  "match_here (lit a @ p) s \<longleftrightarrow> (\<exists>r. s = a @ r \<and> match_here p r)"
proof (induction a arbitrary: s)
  case Nil
  then show ?case by (simp add: lit_def)
next
  case (Cons c a)
  then show ?case by (cases s) (auto simp: lit_def)
qed

lemma match_here_lit: "match_here (lit a) s \<longleftrightarrow> (\<exists>r. s = a @ r)"
  using match_here_lit_append [of a "[]" s] by simp

lemma match_here_AnyChar:
  "match_here (AnyChar # p) s \<longleftrightarrow> (\<exists>c r. s = c # r \<and> \<not> LineTerminator c \<and> match_here p r)"
  by (cases s) auto

lemma match_here_AnyStar:
  "match_here (AnyStar # p) s \<longleftrightarrow>
     (\<exists>m r. s = m @ r \<and> \<not> list_ex LineTerminator m \<and> match_here p r)"
proof (induction s)
  case Nil
  then show ?case by simp
next
  case (Cons x xs)
  show ?case
  proof
    assume "match_here (AnyStar # p) (x # xs)"
    then consider "match_here p (x # xs)"
      | "\<not> LineTerminator x" "match_here (AnyStar # p) xs"
      by auto
    then show "\<exists>m r. x # xs = m @ r \<and> \<not> list_ex LineTerminator m \<and> match_here p r"
    proof cases
      case 1
      then have "x # xs = [] @ (x # xs) \<and> \<not> list_ex LineTerminator [] \<and> match_here p (x # xs)"
        by simp
      then show ?thesis by blast
    next
      case 2
      with Cons.IH obtain m r where "xs = m @ r" "\<not> list_ex LineTerminator m" "match_here p r"
        by blast
      with 2 have "x # xs = (x # m) @ r \<and> \<not> list_ex LineTerminator (x # m) \<and> match_here p r"
        by simp
      then show ?thesis by blast
    qed
  next
    assume "\<exists>m r. x # xs = m @ r \<and> \<not> list_ex LineTerminator m \<and> match_here p r"
    then obtain m r where mr: "x # xs = m @ r" "\<not> list_ex LineTerminator m" "match_here p r"
      by blast
    show "match_here (AnyStar # p) (x # xs)"
    proof (cases m)
      case Nil
      with mr have "match_here p (x # xs)" by simp
      then show ?thesis by simp
    next
      case (Cons y ys)
      with mr have "xs = ys @ r" "\<not> list_ex LineTerminator ys" "\<not> LineTerminator x"
        by auto
      with mr(3) Cons.IH show ?thesis by auto
    qed
  qed
qed

lemma match_anywhere_iff:
  "match_anywhere p s \<longleftrightarrow> (\<exists>u r. s = u @ r \<and> match_here p r)"
proof (induction s)
  case Nil
  then show ?case by simp
next
  case (Cons x xs)
  show ?case
  proof
    assume "match_anywhere p (x # xs)"
    then consider "match_here p (x # xs)" | "match_anywhere p xs" by auto
    then show "\<exists>u r. x # xs = u @ r \<and> match_here p r"
    proof cases
      case 1
      then have "x # xs = [] @ (x # xs) \<and> match_here p (x # xs)" by simp
      then show ?thesis by blast
    next
      case 2
      with Cons.IH obtain u r where "xs = u @ r" "match_here p r" by blast
      then have "x # xs = (x # u) @ r \<and> match_here p r" by simp
      then show ?thesis by blast
    qed
  next
    assume "\<exists>u r. x # xs = u @ r \<and> match_here p r"
    then obtain u r where ur: "x # xs = u @ r" "match_here p r" by blast
    show "match_anywhere p (x # xs)"
    proof (cases u)
      case Nil
      with ur have "match_here p (x # xs)" by simp
      then show ?thesis by simp
    next
      case (Cons y ys)
      with ur have "xs = ys @ r" by simp
      with ur(2) Cons.IH show ?thesis by auto
    qed
  qed
qed

lemma match_literal: "match s [lit a] \<longleftrightarrow> sublist a s"
  by (simp add: match_def match_anywhere_iff match_here_lit sublist_def) blast

lemma match_two_literals: "match s [lit a, lit b] \<longleftrightarrow> sublist a s \<or> sublist b s"
  by (simp add: match_def match_anywhere_iff match_here_lit sublist_def) blast

lemma match_lit_star_lit:
  "match s [lit a @ [AnyStar] @ lit b] \<longleftrightarrow>
     (\<exists>u m v. s = u @ a @ m @ b @ v \<and> \<not> list_ex LineTerminator m)"
  by (simp add: match_def match_anywhere_iff match_here_lit_append match_here_AnyStar match_here_lit)
     blast

lemma match_lit_any_lit:
  "match s [lit a @ [AnyChar] @ lit b] \<longleftrightarrow>
     (\<exists>u c v. s = u @ a @ [c] @ b @ v \<and> \<not> LineTerminator c)"
  by (simp add: match_def match_anywhere_iff match_here_lit_append match_here_AnyChar match_here_lit)
     blast

lemma match_RegExp: "match s (RegExp x) \<longleftrightarrow> sublist x s"
  unfolding RegExp_def by (rule match_literal)

lemma match_section_name_re:
  "match s section_name_re \<longleftrightarrow> sublist ''Symptoms'' s \<or> sublist ''Diagnosis'' s"
  unfolding section_name_re_def by (rule match_two_literals)

lemma match_nested_content_re:
  "match s nested_content_re \<longleftrightarrow>
     (\<exists>u m v. s = u @ ''DIV.content'' @ m @ ''DIV.content'' @ v \<and> \<not> list_ex LineTerminator m)"
  unfolding nested_content_re_def by (rule match_lit_star_lit)

lemma match_diseases_re:
  "match s diseases_re \<longleftrightarrow>
     (\<exists>u c v. s = u @ ''mayoclinic'' @ [c] @ ''org/diseases-conditions'' @ v \<and> \<not> LineTerminator c)"
  unfolding diseases_re_def by (rule match_lit_any_lit)

subsection \<open>Assignment to a dictionary\<close>

lemma dict_set_update: "k \<noteq> ''__proto__'' \<Longrightarrow> dict_set k v d = AList.update k v d"
  by (simp add: dict_set_def)

lemma dict_set_keys_grow: "fst ` set d \<subseteq> fst ` set (dict_set k v d)"
  by (auto simp: dict_set_def dom_update)


lemma dict_set_no_proto:
  "''__proto__'' \<notin> fst ` set d \<Longrightarrow> ''__proto__'' \<notin> fst ` set (dict_set k v d)"
  by (auto simp: dict_set_def dom_update)

lemma set_update_subset: "set (AList.update k v al) \<subseteq> insert (k, v) (set al)"
  by (induction al) auto

lemma set_dict_set_subset: "set (dict_set k v d) \<subseteq> insert (k, v) (set d)"
  using set_update_subset [of k v d] by (auto simp: dict_set_def)

lemma kept_label_is_stored:
  assumes "match k section_name_re"
  shows "dict_set k v d = AList.update k v d"
proof -
  have "\<not> match ''__proto__'' section_name_re"
    by code_simp
  with assms have "k \<noteq> ''__proto__''" by blast
  then show ?thesis by (rule dict_set_update)
qed

subsection \<open>Filtered elements and the classification loop\<close>

lemma classify_element_filtered_out:
  "filtered_out el \<Longrightarrow> classify_element el acc = acc"
  by (simp add: classify_element_def)

lemma classify_loop_filter:
  "classify_loop (filter (\<lambda>el. \<not> filtered_out el) sections) acc = classify_loop sections acc"
  by (induction sections arbitrary: acc) (simp_all add: classify_element_filtered_out)

lemma classify_loop_append:
  "classify_loop (xs @ ys) acc = classify_loop ys (classify_loop xs acc)"
  by (induction xs arbitrary: acc) simp_all

text \<open>
  What \<^const>\<open>getSectionContent\<close> does when the navigation loads a page: the selector is
  built from \<^verbatim>\<open>div.content\<close> if the page has such an element and from the fallback
  otherwise, the matching elements are classified, and nothing is logged.
\<close>

lemma getSectionContent_loaded:
  assumes "B (navigations s) section_url = Inr p"
  shows "getSectionContent B section_url s =
    (Inr (classify (query_all p
        (if exists_sel p ''div.content'' then ''div.content li, div.content h2, div.content p''
         else ''div.aem-GridColumn section li, div.aem-GridColumn section h2, div.aem-GridColumn section p''))),
     s\<lparr>navigations := Suc (navigations s), trace := trace s @ [Goto section_url], loaded := p\<rparr>)"
  using assms
  by (simp add: getSectionContent_def goto_def check_sel_def CONTENT_SUBSELECTORS_def Let_def)

lemma getSectionContent_throws:
  assumes "B (navigations s) section_url = Inl e"
  shows "getSectionContent B section_url s =
    (Inl e, s\<lparr>navigations := Suc (navigations s), trace := trace s @ [Goto section_url]\<rparr>)"
  using assms by (simp add: getSectionContent_def goto_def)

subsection \<open>C1: the last subsection is not flushed\<close>

text \<open>
  C1. When the navigation of \<^const>\<open>getSectionContent\<close> loads a page whose retained
  elements (those not filtered out), in document order, are an H2 with text \<open>A\<close>, a P
  with text \<open>x\<close>, an LI with text \<open>y\<close>, an H2 with text \<open>B\<close> and a P with text \<open>z\<close>,
  the returned dictionary has the single key \<open>A\<close>, with the value \<open>x\<close>, line feed,
  \<open>- y\<close>. It has no key \<open>B\<close>: the heading and body that are open when the loop ends are
  not stored.
\<close>

theorem getSectionContent_tail_not_flushed:
  assumes "B (navigations s) section_url = Inr p"
    and "map (\<lambda>el. (tagName el, element_text el))
           (filter (\<lambda>el. \<not> filtered_out el)
             (query_all p
               (if exists_sel p ''div.content'' then ''div.content li, div.content h2, div.content p''
                else ''div.aem-GridColumn section li, div.aem-GridColumn section h2, div.aem-GridColumn section p'')))
         = [(''H2'', ''A''), (''P'', ''x''), (''LI'', ''y''), (''H2'', ''B''), (''P'', ''z'')]"
  shows "fst (getSectionContent B section_url s) = Inr [(''A'', ''x'' @ [CHR 0x0A] @ ''- y'')]"
proof -
  let ?sections = "query_all p
     (if exists_sel p ''div.content'' then ''div.content li, div.content h2, div.content p''
      else ''div.aem-GridColumn section li, div.aem-GridColumn section h2, div.aem-GridColumn section p'')"
  from assms(2) obtain e1 e2 e3 e4 e5 where
    retained: "filter (\<lambda>el. \<not> filtered_out el) ?sections = [e1, e2, e3, e4, e5]"
    and e: "tagName e1 = ''H2''" "element_text e1 = ''A''"
      "tagName e2 = ''P''" "element_text e2 = ''x''"
      "tagName e3 = ''LI''" "element_text e3 = ''y''"
      "tagName e4 = ''H2''" "element_text e4 = ''B''"
      "tagName e5 = ''P''" "element_text e5 = ''z''"
    by (auto simp: map_eq_Cons_conv)
  have "set [e1, e2, e3, e4, e5] \<subseteq> {el. \<not> filtered_out el}"
    unfolding retained [symmetric] by auto
  then have r: "\<not> filtered_out e1" "\<not> filtered_out e2" "\<not> filtered_out e3"
      "\<not> filtered_out e4" "\<not> filtered_out e5"
    by simp_all
  have "classify ?sections = classify [e1, e2, e3, e4, e5]"
    by (simp only: classify_def classify_loop_filter flip: retained)
  also have "\<dots> = [(''A'', ''x'' @ [CHR 0x0A] @ ''- y'')]"
    by (simp add: classify_def classify_element_def dict_set_def e r trim_def WhiteSpace_def)
  finally show ?thesis
    using assms(1) by (simp add: getSectionContent_loaded)
qed

theorem getSectionContent_tail_not_flushed_witness:
  "fst (getSectionContent (\<lambda>n u. Inr section_page) ''https://www.mayoclinic.org/a'' fresh_run)
     = Inr [(''A'', ''x'' @ [CHR 0x0A] @ ''- y'')]"
proof -
  have retained: "map (\<lambda>el. (tagName el, element_text el))
      (filter (\<lambda>el. \<not> filtered_out el) sample_sections)
    = [(''H2'', ''A''), (''P'', ''x''), (''LI'', ''y''), (''H2'', ''B''), (''P'', ''z'')]"
    by code_simp
  show ?thesis
    using getSectionContent_tail_not_flushed
      [of "\<lambda>n u. Inr section_page" fresh_run "''https://www.mayoclinic.org/a''" section_page]
    by (simp add: section_page_def retained)
qed

subsection \<open>C7: which elements the classification skips\<close>

text \<open>
  The three \<^verbatim>\<open>continue\<close> conditions in terms of the element: its trimmed text is
  empty, or its ancestor path has \<^verbatim>\<open>DIV.content\<close> twice with no line terminator
  between the two occurrences, or the path contains one of the three strings of
  \<^verbatim>\<open>toAvoid\<close>.
\<close>

lemma filtered_out_iff:
  "filtered_out el \<longleftrightarrow>
     element_text el = []
     \<or> (\<exists>u m v. parentPath (parents el) = u @ ''DIV.content'' @ m @ ''DIV.content'' @ v
            \<and> \<not> list_ex LineTerminator m)
     \<or> sublist ''references'' (parentPath (parents el))
     \<or> sublist ''acces-list-container'' (parentPath (parents el))
     \<or> sublist ''tableofcontents'' (parentPath (parents el))"
  unfolding filtered_out_def match_nested_content_re match_RegExp toAvoid_def
  by (simp only: list_ex_Nil_iff list_ex_Cons_iff if_bool_eq_disj simp_thms) blast

text \<open>
  An element whose trimmed text is empty, or whose ancestor path contains
  \<^verbatim>\<open>DIV.content\<close> twice with no line terminator between the two occurrences, or
  whose ancestor path contains \<^verbatim>\<open>references\<close>, \<^verbatim>\<open>acces-list-container\<close> or
  \<^verbatim>\<open>tableofcontents\<close>, leaves the accumulator of the loop as it is, and the
  dictionary of a page is the one of the page without the element.
\<close>

lemma filtered_element_skipped:
  assumes "element_text el = []
     \<or> (\<exists>u m v. parentPath (parents el) = u @ ''DIV.content'' @ m @ ''DIV.content'' @ v
            \<and> \<not> list_ex LineTerminator m)
     \<or> sublist ''references'' (parentPath (parents el))
     \<or> sublist ''acces-list-container'' (parentPath (parents el))
     \<or> sublist ''tableofcontents'' (parentPath (parents el))"
  shows "classify_element el acc = acc
     \<and> classify (before @ el # after) = classify (before @ after)"
proof -
  from assms have f: "filtered_out el"
    by (simp only: filtered_out_iff)
  then have step: "classify_element el a = a" for a
    by (rule classify_element_filtered_out)
  then show ?thesis
    by (simp add: classify_def classify_loop_append)
qed

text \<open>
  An element inside two nested \<^verbatim>\<open>div.content\<close> blocks, the one the parent of the
  other, is excluded from the page.
\<close>

lemma nested_element_skipped:
  "classify ([article_element ''H2'' ''A''] @ nested_element # [article_element ''H2'' ''B''])
     = classify ([article_element ''H2'' ''A''] @ [article_element ''H2'' ''B''])"
proof -
  have "parentPath (parents nested_element)
      = [] @ ''DIV.content'' @ '' '' @ ''DIV.content'' @ '' ARTICLE.main BODY. HTML. ''
      \<and> \<not> list_ex LineTerminator '' ''"
    by (simp add: nested_element_def LineTerminator_def)
  then have "\<exists>u m v. parentPath (parents nested_element)
      = u @ ''DIV.content'' @ m @ ''DIV.content'' @ v \<and> \<not> list_ex LineTerminator m"
    by blast
  then show ?thesis
    using filtered_element_skipped [of nested_element] by blast
qed

text \<open>
  C7 fails on the code. The ancestor path of the paragraph below contains
  \<^verbatim>\<open>DIV.content\<close> twice, but the class attribute of the \<^verbatim>\<open>div\<close> between the two
  \<^verbatim>\<open>div.content\<close> ancestors contains a line feed. The pattern
  \<^verbatim>\<open>/DIV\.content.*DIV\.content/\<close> has no \<^verbatim>\<open>s\<close> flag, so its wildcard does not
  match the line feed: the paragraph is not filtered out, and
  \<^const>\<open>getSectionContent\<close> returns its text as the body of subsection \<open>A\<close>, where
  the page without the paragraph gives the empty body.
\<close>

theorem nested_content_across_line_feed_is_kept:
  "parentPath (parents newline_nested_element)
     = ''DIV.content '' @ ''DIV.row'' @ [CHR 0x0A] @ ''wide '' @ ''DIV.content '' @ ''BODY. HTML. ''
   \<and> \<not> filtered_out newline_nested_element
   \<and> fst (getSectionContent
       (always (content_page
          [article_element ''H2'' ''A'', newline_nested_element, article_element ''H2'' ''B'']))
       acne_url fresh_run)
     = Inr [(''A'', ''Related content'')]
   \<and> fst (getSectionContent
       (always (content_page [article_element ''H2'' ''A'', article_element ''H2'' ''B'']))
       acne_url fresh_run)
     = Inr [(''A'', [])]"
  by code_simp

subsection \<open>C6: only the Symptoms and Diagnosis tabs are kept\<close>

lemma section_links_loop_skip:
  "\<not> match (replace_amp (fst el)) section_name_re \<Longrightarrow>
   section_links_loop B (el # els) c s = section_links_loop B els c s"
  by (simp add: Let_def)

lemma section_links_loop_keep:
  "match (replace_amp (fst el)) section_name_re \<Longrightarrow>
   section_links_loop B (el # els) c s =
     (case getSectionContent B (snd el) s of
        (Inl e, s1) \<Rightarrow> (Inl e, s1)
      | (Inr section_content, s1) \<Rightarrow>
          section_links_loop B els (AList.update (replace_amp (fst el)) section_content c)
            (log (SectionInfo (replace_amp (fst el)) (snd el)) s1))"
  by (cases "getSectionContent B (snd el) s")
    (simp add: Let_def VERBOSE_def kept_label_is_stored split: sum.splits)

lemma section_links_loop_append:
  "section_links_loop B (xs @ ys) c s =
     (case section_links_loop B xs c s of
        (Inl e, s1) \<Rightarrow> (Inl e, s1)
      | (Inr c1, s1) \<Rightarrow> section_links_loop B ys c1 s1)"
proof (induction xs arbitrary: c s)
  case Nil
  then show ?case by simp
next
  case (Cons el xs)
  show ?case
  proof (cases "match (replace_amp (fst el)) section_name_re")
    case False
    then show ?thesis
      using Cons.IH by (simp add: section_links_loop_skip del: section_links_loop.simps)
  next
    case True
    then show ?thesis
      using Cons.IH
      by (cases "getSectionContent B (snd el) s")
        (simp add: section_links_loop_keep del: section_links_loop.simps split: sum.splits)
  qed
qed

lemma section_links_loop_filter:
  "section_links_loop B (filter (\<lambda>el. match (replace_amp (fst el)) section_name_re) els) c s
     = section_links_loop B els c s"
proof (induction els arbitrary: c s)
  case Nil
  then show ?case by simp
next
  case (Cons el els)
  show ?case
  proof (cases "match (replace_amp (fst el)) section_name_re")
    case False
    then show ?thesis
      using Cons.IH by (simp add: section_links_loop_skip del: section_links_loop.simps)
  next
    case True
    then show ?thesis
      using Cons.IH
      by (cases "getSectionContent B (snd el) s")
        (simp add: section_links_loop_keep del: section_links_loop.simps split: sum.splits)
  qed
qed

lemma section_links_loop_keys:
  "fst (section_links_loop B els c s) = Inr c' \<Longrightarrow>
   fst ` set c' = fst ` set c
     \<union> (\<lambda>el. replace_amp (fst el)) ` {el \<in> set els. match (replace_amp (fst el)) section_name_re}"
proof (induction els arbitrary: c s)
  case Nil
  then show ?case by simp
next
  case (Cons el els)
  show ?case
  proof (cases "match (replace_amp (fst el)) section_name_re")
    case False
    with Cons.prems have "fst (section_links_loop B els c s) = Inr c'"
      by (simp add: section_links_loop_skip del: section_links_loop.simps)
    from Cons.IH [OF this] False show ?thesis by auto
  next
    case True
    show ?thesis
    proof (cases "getSectionContent B (snd el) s")
      case (Pair r s1)
      show ?thesis
      proof (cases r)
        case (Inl e)
        with Pair True Cons.prems show ?thesis
          by (simp add: section_links_loop_keep del: section_links_loop.simps)
      next
        case (Inr d)
        with Pair True Cons.prems
        have "fst (section_links_loop B els (AList.update (replace_amp (fst el)) d c)
            (log (SectionInfo (replace_amp (fst el)) (snd el)) s1)) = Inr c'"
          by (simp add: section_links_loop_keep del: section_links_loop.simps)
        from Cons.IH [OF this] True show ?thesis
          by (auto simp: dom_update)
      qed
    qed
  qed
qed

lemma replace_amp_Nil: "replace_amp [] = []"
  by (simp add: replace_amp_def)

lemma replace_amp_Cons:
  "replace_amp (c # s) = (if c = CHR ''&'' then ''& '' else [c]) @ replace_amp s"
  by (simp add: replace_amp_def)

text \<open>
  C6. \<^const>\<open>getGuideline\<close> replaces every \<^verbatim>\<open>&\<close> of a tab label by \<^verbatim>\<open>&\<close> and a
  space (\<^const>\<open>replace_amp\<close>) and keeps the tab only if the result contains
  \<^verbatim>\<open>Symptoms\<close> or \<^verbatim>\<open>Diagnosis\<close>: its result and its effects are those of the loop
  over the kept tabs alone, and the keys of the content of a returned record are
  the normalized labels of the kept tabs.
\<close>

theorem getGuideline_keeps_Symptoms_and_Diagnosis:
  "getGuideline B nm u s =
     (case section_links_loop B
        (filter (\<lambda>el. sublist ''Symptoms'' (replace_amp (fst el))
                     \<or> sublist ''Diagnosis'' (replace_amp (fst el)))
           (get_links s PAGE_SECTION_SELECTOR)) [] s of
        (Inl e, s1) \<Rightarrow> (Inl e, s1)
      | (Inr c, s1) \<Rightarrow> (Inr \<lparr>name = nm, url = u, content = c\<rparr>, s1))
   \<and> (\<forall>g. fst (getGuideline B nm u s) = Inr g \<longrightarrow>
        fst ` set (content g) =
          (\<lambda>el. replace_amp (fst el)) `
            {el \<in> set (get_links s PAGE_SECTION_SELECTOR).
               sublist ''Symptoms'' (replace_amp (fst el))
               \<or> sublist ''Diagnosis'' (replace_amp (fst el))})"
proof -
  let ?links = "get_links s PAGE_SECTION_SELECTOR"
  have filter: "section_links_loop B
        (filter (\<lambda>el. sublist ''Symptoms'' (replace_amp (fst el))
                     \<or> sublist ''Diagnosis'' (replace_amp (fst el))) ?links) [] s
      = section_links_loop B ?links [] s"
    using section_links_loop_filter [of B ?links "[]" s]
    by (simp only: match_section_name_re)
  have keys: "fst ` set (content g) =
      (\<lambda>el. replace_amp (fst el)) `
        {el \<in> set ?links. sublist ''Symptoms'' (replace_amp (fst el))
           \<or> sublist ''Diagnosis'' (replace_amp (fst el))}"
    if g: "fst (getGuideline B nm u s) = Inr g" for g
  proof -
    from g have "fst (section_links_loop B ?links [] s) = Inr (content g)"
      by (auto simp: getGuideline_def Let_def split: prod.splits sum.splits)
    from section_links_loop_keys [OF this] show ?thesis
      by (simp only: match_section_name_re) simp
  qed
  show ?thesis
    using keys by (simp only: filter getGuideline_def Let_def) blast
qed

text \<open>
  Of the tabs Overview, Symptoms, Diagnosis and Doctors of the sample page, the second
  and the third are kept.
\<close>

theorem getGuideline_keeps_Symptoms_and_Diagnosis_witness:
  "fst (getGuideline (always acne_page) ''Acne'' acne_url (fresh_run\<lparr>loaded := acne_page\<rparr>))
     = Inr acne_guideline
   \<and> fst ` set (content acne_guideline) = {''Symptoms & causes'', ''Diagnosis &  treatment''}
   \<and> (\<lambda>el. replace_amp (fst el)) `
        {el \<in> set (get_links (fresh_run\<lparr>loaded := acne_page\<rparr>) PAGE_SECTION_SELECTOR).
           sublist ''Symptoms'' (replace_amp (fst el)) \<or> sublist ''Diagnosis'' (replace_amp (fst el))}
      = {''Symptoms & causes'', ''Diagnosis &  treatment''}"
proof -
  have run: "fst (getGuideline (always acne_page) ''Acne'' acne_url (fresh_run\<lparr>loaded := acne_page\<rparr>))
      = Inr acne_guideline"
    by code_simp
  have keys: "fst ` set (content acne_guideline) = {''Symptoms & causes'', ''Diagnosis &  treatment''}"
    by (simp add: acne_guideline_def)
  from getGuideline_keeps_Symptoms_and_Diagnosis
    [of "always acne_page" "''Acne''" acne_url "fresh_run\<lparr>loaded := acne_page\<rparr>"] run
  have "fst ` set (content acne_guideline) = (\<lambda>el. replace_amp (fst el)) `
        {el \<in> set (get_links (fresh_run\<lparr>loaded := acne_page\<rparr>) PAGE_SECTION_SELECTOR).
           sublist ''Symptoms'' (replace_amp (fst el)) \<or> sublist ''Diagnosis'' (replace_amp (fst el))}"
    by blast
  with run keys show ?thesis by simp
qed

subsection \<open>C10: a repeated heading or label keeps the last value\<close>

lemma element_text_retained: "\<not> filtered_out el \<Longrightarrow> element_text el \<noteq> []"
  by (auto simp: filtered_out_def)

lemma classify_element_H2:
  assumes "\<not> filtered_out el" "tagName el = ''H2''"
  shows "classify_element el acc =
    (if subsection_head acc \<noteq> [] then
       acc\<lparr>subsection_dict :=
             dict_set (subsection_head acc) (trim (subsection_text acc)) (subsection_dict acc),
           subsection_text := [],
           subsection_head := element_text el\<rparr>
     else acc\<lparr>subsection_head := element_text el\<rparr>)"
  using assms by (simp add: classify_element_def)

lemma classify_element_body:
  assumes "filtered_out el \<or> tagName el \<noteq> ''H2''"
  shows "subsection_dict (classify_element el acc) = subsection_dict acc"
    and "subsection_head (classify_element el acc) = subsection_head acc"
    and "subsection_text (classify_element el acc) =
      subsection_text acc
        @ subsection_text (classify_element el
            \<lparr>subsection_dict = [], subsection_text = [], subsection_head = h\<rparr>)"
  using assms by (auto simp: classify_element_def)

lemma classify_loop_body:
  assumes "\<forall>el \<in> set body. filtered_out el \<or> tagName el \<noteq> ''H2''"
  shows "classify_loop body acc =
    acc\<lparr>subsection_text := subsection_text acc
        @ subsection_text (classify_loop body
            \<lparr>subsection_dict = [], subsection_text = [], subsection_head = h\<rparr>)\<rparr>"
  using assms
proof (induction body arbitrary: acc)
  case Nil
  then show ?case by simp
next
  case (Cons el body)
  let ?Z = "\<lparr>subsection_dict = [], subsection_text = [], subsection_head = h\<rparr>"
  from Cons.prems have el: "filtered_out el \<or> tagName el \<noteq> ''H2''"
    and body: "\<forall>el \<in> set body. filtered_out el \<or> tagName el \<noteq> ''H2''"
    by simp_all
  have Z: "classify_element el ?Z = ?Z\<lparr>subsection_text := subsection_text (classify_element el ?Z)\<rparr>"
    using classify_element_body(1,2) [OF el, of ?Z] by (cases "classify_element el ?Z") simp
  have A: "classify_element el acc
      = acc\<lparr>subsection_text := subsection_text acc @ subsection_text (classify_element el ?Z)\<rparr>"
    using classify_element_body(1,2) [OF el, of acc] classify_element_body(3) [OF el, of acc h]
    by (cases "classify_element el acc") simp
  have "classify_loop (el # body) acc = classify_loop body (classify_element el acc)"
    by simp
  also have "\<dots> = (classify_element el acc)\<lparr>subsection_text :=
      subsection_text (classify_element el acc) @ subsection_text (classify_loop body ?Z)\<rparr>"
    by (rule Cons.IH [OF body])
  also have "\<dots> = acc\<lparr>subsection_text := subsection_text acc
      @ subsection_text (classify_element el ?Z) @ subsection_text (classify_loop body ?Z)\<rparr>"
    by (subst (1 2) A) simp
  also have "subsection_text (classify_element el ?Z) @ subsection_text (classify_loop body ?Z)
      = subsection_text (classify_loop (el # body) ?Z)"
    using Cons.IH [OF body, of "classify_element el ?Z"] by (subst (asm) (2) Z) simp
  finally show ?case .
qed

lemma head_stays_nonempty_step:
  "subsection_head acc \<noteq> [] \<Longrightarrow> subsection_head (classify_element el acc) \<noteq> []"
  by (auto simp: classify_element_def dest: element_text_retained)

lemma head_stays_nonempty:
  "subsection_head acc \<noteq> [] \<Longrightarrow> subsection_head (classify_loop els acc) \<noteq> []"
  by (induction els arbitrary: acc) (simp_all add: head_stays_nonempty_step)

lemma keys_grow_step:
  "fst ` set (subsection_dict acc) \<subseteq> fst ` set (subsection_dict (classify_element el acc))"
  using dict_set_keys_grow [of "subsection_dict acc"] by (auto simp: classify_element_def)

lemma keys_grow:
  "fst ` set (subsection_dict acc) \<subseteq> fst ` set (subsection_dict (classify_loop els acc))"
proof (induction els arbitrary: acc)
  case Nil
  then show ?case by simp
next
  case (Cons el els)
  show ?case
    using keys_grow_step [of acc el] Cons.IH [of "classify_element el acc"] by auto
qed

lemma no_proto_key_step:
  "''__proto__'' \<notin> fst ` set (subsection_dict acc) \<Longrightarrow>
   ''__proto__'' \<notin> fst ` set (subsection_dict (classify_element el acc))"
  by (simp add: classify_element_def dict_set_no_proto)

lemma no_proto_key_loop:
  "''__proto__'' \<notin> fst ` set (subsection_dict acc) \<Longrightarrow>
   ''__proto__'' \<notin> fst ` set (subsection_dict (classify_loop els acc))"
  by (induction els arbitrary: acc) (simp_all add: no_proto_key_step)

lemma no_proto_key: "''__proto__'' \<notin> fst ` set (classify sections)"
  by (simp add: classify_def no_proto_key_loop)

lemma open_heading_stored_at_next_H2:
  assumes "subsection_head acc = h" "h \<noteq> []" "h \<noteq> ''__proto__''"
    and "\<exists>el \<in> set els. \<not> filtered_out el \<and> tagName el = ''H2''"
  shows "h \<in> fst ` set (subsection_dict (classify_loop els acc))"
  using assms
proof (induction els arbitrary: acc)
  case Nil
  then show ?case by simp
next
  case (Cons el els)
  show ?case
  proof (cases "\<not> filtered_out el \<and> tagName el = ''H2''")
    case True
    with Cons.prems have "h \<in> fst ` set (subsection_dict (classify_element el acc))"
      by (simp add: classify_element_H2 dict_set_update dom_update)
    then show ?thesis
      using keys_grow [of "classify_element el acc" els] by auto
  next
    case False
    then have el: "filtered_out el \<or> tagName el \<noteq> ''H2''" by blast
    from False Cons.prems(4)
    have rest: "\<exists>el \<in> set els. \<not> filtered_out el \<and> tagName el = ''H2''" by auto
    have "subsection_head (classify_element el acc) = h"
      using classify_element_body(2) [OF el] Cons.prems(1) by simp
    from Cons.IH [OF this Cons.prems(2,3) rest] show ?thesis by simp
  qed
qed

lemma classify_duplicate_heading:
  assumes "\<not> filtered_out h1" "tagName h1 = ''H2''" "element_text h1 = h"
    and "\<not> filtered_out h2" "tagName h2 = ''H2''" "element_text h2 = h"
    and "\<not> filtered_out h3" "tagName h3 = ''H2''"
    and "\<forall>el \<in> set body2. filtered_out el \<or> tagName el \<noteq> ''H2''"
  shows "h \<noteq> ''__proto__'' \<longrightarrow> h \<in> fst ` set (classify (before @ [h1] @ body1 @ [h2]))"
    and "h \<in> fst ` set (classify (before @ [h1] @ body1 @ [h2])) \<longrightarrow>
      map_of (classify (before @ [h1] @ body1 @ [h2] @ body2 @ [h3])) h
        = Some (trim (subsection_text (classify_loop body2
            \<lparr>subsection_dict = [], subsection_text = [], subsection_head = h\<rparr>)))"
proof -
  let ?init = "\<lparr>subsection_dict = [], subsection_text = [], subsection_head = []\<rparr>"
  let ?Z = "\<lparr>subsection_dict = [], subsection_text = [], subsection_head = h\<rparr>"
  define a0 where "a0 = classify_loop before ?init"
  define a1 where "a1 = classify_element h1 a0"
  define a2 where "a2 = classify_loop body1 a1"
  define a3 where "a3 = classify_element h2 a2"
  define a4 where "a4 = classify_loop body2 a3"
  have h: "h \<noteq> []"
    using assms(1,3) element_text_retained by blast
  have head1: "subsection_head a1 = h"
    unfolding a1_def using assms(1-3) by (simp add: classify_element_H2)
  show "h \<noteq> ''__proto__'' \<longrightarrow> h \<in> fst ` set (classify (before @ [h1] @ body1 @ [h2]))"
  proof
    assume "h \<noteq> ''__proto__''"
    with head1 h assms(4,5)
    have "h \<in> fst ` set (subsection_dict (classify_loop (body1 @ [h2]) a1))"
      by (intro open_heading_stored_at_next_H2) auto
    then show "h \<in> fst ` set (classify (before @ [h1] @ body1 @ [h2]))"
      by (simp add: classify_def classify_loop_append a0_def a1_def)
  qed
  show "h \<in> fst ` set (classify (before @ [h1] @ body1 @ [h2])) \<longrightarrow>
      map_of (classify (before @ [h1] @ body1 @ [h2] @ body2 @ [h3])) h
        = Some (trim (subsection_text (classify_loop body2 ?Z)))"
  proof
    assume "h \<in> fst ` set (classify (before @ [h1] @ body1 @ [h2]))"
    with no_proto_key [of "before @ [h1] @ body1 @ [h2]"] have stored: "h \<noteq> ''__proto__''"
      by blast
    have "subsection_head a2 \<noteq> []"
      unfolding a2_def using head1 h by (intro head_stays_nonempty) simp
    then have a3: "subsection_text a3 = []" "subsection_head a3 = h"
      unfolding a3_def using assms(4-6) by (simp_all add: classify_element_H2)
    have a4: "a4 = a3\<lparr>subsection_text := subsection_text (classify_loop body2 ?Z)\<rparr>"
      unfolding a4_def using classify_loop_body [OF assms(9), of a3 h] a3 by simp
    have "subsection_dict (classify_element h3 a4)
        = AList.update h (trim (subsection_text (classify_loop body2 ?Z))) (subsection_dict a3)"
      using assms(7,8) h a3 stored by (simp add: classify_element_H2 a4 dict_set_update)
    then have "map_of (subsection_dict (classify_element h3 a4)) h
        = Some (trim (subsection_text (classify_loop body2 ?Z)))"
      by (simp add: update_conv')
    then show "map_of (classify (before @ [h1] @ body1 @ [h2] @ body2 @ [h3])) h
        = Some (trim (subsection_text (classify_loop body2 ?Z)))"
      by (simp add: classify_def classify_loop_append a0_def a1_def a2_def a3_def a4_def)
  qed
qed

lemma classify_tail_not_stored:
  assumes "\<forall>el \<in> set body. filtered_out el \<or> tagName el \<noteq> ''H2''"
  shows "classify (els @ body) = classify els"
proof -
  let ?init = "\<lparr>subsection_dict = [], subsection_text = [], subsection_head = []\<rparr>"
  have "subsection_dict (classify_loop body (classify_loop els ?init))
      = subsection_dict (classify_loop els ?init)"
    by (subst classify_loop_body [OF assms, of _ "[]"]) simp
  then show ?thesis
    by (simp add: classify_def classify_loop_append)
qed

lemma section_links_loop_retained_keys:
  assumes "fst (section_links_loop B els [] s) = Inr c" "k \<in> fst ` set c"
  shows "match k section_name_re"
  using section_links_loop_keys [OF assms(1)] assms(2) by auto

lemma section_links_loop_last:
  assumes "fst (section_links_loop B section_links [] s) = Inr c1"
    and "match (replace_amp label) section_name_re"
    and "fst (getSectionContent B section_url (snd (section_links_loop B section_links [] s))) = Inr d"
  shows "fst (section_links_loop B (section_links @ [(label, section_url)]) [] s)
     = Inr (AList.update (replace_amp label) d c1)"
proof -
  obtain s1 where s1: "section_links_loop B section_links [] s = (Inr c1, s1)"
    using assms(1) by (cases "section_links_loop B section_links [] s") simp
  obtain s2 where s2: "getSectionContent B section_url s1 = (Inr d, s2)"
    using assms(3) s1 by (cases "getSectionContent B section_url s1") simp
  show ?thesis
    using assms(2) s1 s2
    by (simp add: section_links_loop_append section_links_loop_keep del: section_links_loop.simps(2))
qed

text \<open>
  C10 (as amended). Let two retained H2 elements of a page have the same text \<open>h\<close>.
  At the second one a body is stored under \<open>h\<close> for the first one (for every \<open>h\<close>
  but \<^verbatim>\<open>__proto__\<close>, which no assignment stores). When a further retained H2 is
  reached, after elements \<open>body2\<close> that are no retained H2, the value of \<open>h\<close> is the
  trimmed text accumulated from \<open>body2\<close> alone: the body stored for the first
  occurrence is overwritten. As long as no retained H2 follows the second occurrence,
  the dictionary is the one at the second occurrence: \<open>body2\<close> is not stored and the
  body of the first occurrence stays. Likewise in \<^const>\<open>getGuideline\<close>: a tab whose
  normalized label is already a key of the content replaces the value of that key by
  the dictionary of its own page, and adds no key.
\<close>

theorem duplicate_heading_keeps_last_body:
  assumes "\<not> filtered_out h1" "tagName h1 = ''H2''" "element_text h1 = h"
    and "\<not> filtered_out h2" "tagName h2 = ''H2''" "element_text h2 = h"
    and "\<not> filtered_out h3" "tagName h3 = ''H2''"
    and "\<forall>el \<in> set body2. filtered_out el \<or> tagName el \<noteq> ''H2''"
    and "fst (section_links_loop B section_links [] s) = Inr c1"
    and "replace_amp label \<in> fst ` set c1"
    and "fst (getSectionContent B section_url (snd (section_links_loop B section_links [] s))) = Inr d"
  shows "(h \<noteq> ''__proto__'' \<longrightarrow> h \<in> fst ` set (classify (before @ [h1] @ body1 @ [h2])))
     \<and> (h \<in> fst ` set (classify (before @ [h1] @ body1 @ [h2])) \<longrightarrow>
          map_of (classify (before @ [h1] @ body1 @ [h2] @ body2 @ [h3])) h
            = Some (trim (subsection_text (classify_loop body2
                \<lparr>subsection_dict = [], subsection_text = [], subsection_head = h\<rparr>))))
     \<and> classify (before @ [h1] @ body1 @ [h2] @ body2) = classify (before @ [h1] @ body1 @ [h2])
     \<and> (\<exists>c2. fst (section_links_loop B (section_links @ [(label, section_url)]) [] s) = Inr c2
          \<and> map fst c2 = map fst c1 \<and> map_of c2 (replace_amp label) = Some d)"
proof -
  have tail: "classify (before @ [h1] @ body1 @ [h2] @ body2) = classify (before @ [h1] @ body1 @ [h2])"
    using classify_tail_not_stored [OF assms(9), of "before @ [h1] @ body1 @ [h2]"] by simp
  have keep: "match (replace_amp label) section_name_re"
    using assms(10,11) by (rule section_links_loop_retained_keys)
  have "fst (section_links_loop B (section_links @ [(label, section_url)]) [] s)
      = Inr (AList.update (replace_amp label) d c1)"
    using assms(10) keep assms(12) by (rule section_links_loop_last)
  moreover have "map fst (AList.update (replace_amp label) d c1) = map fst c1"
    using assms(11) by (simp add: update_keys)
  moreover have "map_of (AList.update (replace_amp label) d c1) (replace_amp label) = Some d"
    by (simp add: update_conv')
  ultimately have "\<exists>c2. fst (section_links_loop B (section_links @ [(label, section_url)]) [] s) = Inr c2
      \<and> map fst c2 = map fst c1 \<and> map_of c2 (replace_amp label) = Some d"
    by blast
  with classify_duplicate_heading [OF assms(1-9)] tail show ?thesis by blast
qed

theorem duplicate_heading_keeps_last_body_witness:
  "''A'' \<in> fst ` set (classify ([] @ [article_element ''H2'' ''A''] @ [article_element ''P'' ''x'']
        @ [article_element ''H2'' ''A'']))
   \<and> map_of (classify ([] @ [article_element ''H2'' ''A''] @ [article_element ''P'' ''x'']
        @ [article_element ''H2'' ''A''] @ [article_element ''LI'' ''y''] @ [article_element ''H2'' ''B'']))
      ''A'' = Some ''- y''
   \<and> classify ([] @ [article_element ''H2'' ''A''] @ [article_element ''P'' ''x'']
        @ [article_element ''H2'' ''A''] @ [article_element ''LI'' ''y''])
      = classify ([] @ [article_element ''H2'' ''A''] @ [article_element ''P'' ''x'']
        @ [article_element ''H2'' ''A''])
   \<and> (\<exists>c2. fst (section_links_loop acne_or_blank
          ([(''Symptoms'', acne_url)] @ [(''Symptoms'', acne_diagnosis_url)]) [] fresh_run) = Inr c2
        \<and> map fst c2 = [''Symptoms''] \<and> map_of c2 ''Symptoms'' = Some [])"
proof -
  have h: "\<not> filtered_out (article_element ''H2'' ''A'')" "tagName (article_element ''H2'' ''A'') = ''H2''"
    "element_text (article_element ''H2'' ''A'') = ''A''"
    "\<not> filtered_out (article_element ''H2'' ''B'')" "tagName (article_element ''H2'' ''B'') = ''H2''"
    "\<forall>el \<in> set [article_element ''LI'' ''y'']. filtered_out el \<or> tagName el \<noteq> ''H2''"
    by code_simp+
  have tabs: "fst (section_links_loop acne_or_blank [(''Symptoms'', acne_url)] [] fresh_run)
      = Inr [(''Symptoms'', [(''A'', ''x'' @ [CHR 0x0A] @ ''- y'')])]"
    "fst (getSectionContent acne_or_blank acne_diagnosis_url
       (snd (section_links_loop acne_or_blank [(''Symptoms'', acne_url)] [] fresh_run))) = Inr []"
    by code_simp+
  have key: "replace_amp ''Symptoms'' \<in> fst ` set [(''Symptoms'', [(''A'', ''x'' @ [CHR 0x0A] @ ''- y'')])]"
    by (simp add: replace_amp_def)
  have body: "trim (subsection_text (classify_loop [article_element ''LI'' ''y'']
      \<lparr>subsection_dict = [], subsection_text = [], subsection_head = ''A''\<rparr>)) = ''- y''"
    by code_simp
  have label: "replace_amp ''Symptoms'' = ''Symptoms''"
    by (simp add: replace_amp_def)
  have plain: "''A'' \<noteq> ''__proto__''"
    by simp
  note all = duplicate_heading_keeps_last_body [OF h(1-3) h(1-3) h(4-6) tabs(1) key tabs(2),
        of "[]" "[article_element ''P'' ''x'']"]
  from all plain have stored: "''A'' \<in> fst ` set (classify ([] @ [article_element ''H2'' ''A'']
        @ [article_element ''P'' ''x''] @ [article_element ''H2'' ''A'']))"
    by blast
  with all have last: "map_of (classify ([] @ [article_element ''H2'' ''A''] @ [article_element ''P'' ''x'']
        @ [article_element ''H2'' ''A''] @ [article_element ''LI'' ''y''] @ [article_element ''H2'' ''B'']))
      ''A'' = Some (trim (subsection_text (classify_loop [article_element ''LI'' ''y'']
      \<lparr>subsection_dict = [], subsection_text = [], subsection_head = ''A''\<rparr>)))"
    by blast
  from all have "\<exists>c2. fst (section_links_loop acne_or_blank
          ([(''Symptoms'', acne_url)] @ [(''Symptoms'', acne_diagnosis_url)]) [] fresh_run) = Inr c2
        \<and> map fst c2 = map fst [(''Symptoms'', [(''A'', ''x'' @ [CHR 0x0A] @ ''- y'')])]
        \<and> map_of c2 (replace_amp ''Symptoms'') = Some []"
    by blast
  then have tab: "\<exists>c2. fst (section_links_loop acne_or_blank
          ([(''Symptoms'', acne_url)] @ [(''Symptoms'', acne_diagnosis_url)]) [] fresh_run) = Inr c2
        \<and> map fst c2 = [''Symptoms''] \<and> map_of c2 ''Symptoms'' = Some []"
    by (simp only: label list.map fst_conv)
  from all have kept: "classify ([] @ [article_element ''H2'' ''A''] @ [article_element ''P'' ''x'']
        @ [article_element ''H2'' ''A''] @ [article_element ''LI'' ''y''])
      = classify ([] @ [article_element ''H2'' ''A''] @ [article_element ''P'' ''x'']
        @ [article_element ''H2'' ''A''])"
    by blast
  from stored last [unfolded body] kept tab show ?thesis
    by blast
qed

text \<open>
  C10 as stated fails when the second occurrence is the last retained H2 of the page:
  then the body after it is never stored. On the page with an H2 \<open>A\<close>, a P \<open>x\<close>, an
  H2 \<open>A\<close> and a P \<open>y\<close>, the value of \<open>A\<close> is \<open>x\<close>, the body of the first
  occurrence, and \<open>y\<close> is lost.
\<close>

theorem second_body_not_stored_counterexample:
  "fst (getSectionContent
       (always (content_page
          [article_element ''H2'' ''A'', article_element ''P'' ''x'',
           article_element ''H2'' ''A'', article_element ''P'' ''y'']))
       acne_url fresh_run)
     = Inr [(''A'', ''x'')]"
  by code_simp

subsection \<open>What an extraction changes in the state\<close>

lemma goto_frame:
  assumes "goto B u s = (r, s')"
  shows "trace s' = trace s @ [Goto u]" "files s' = files s"
    "traversed_pages s' = traversed_pages s"
  using assms by (auto simp: goto_def Let_def split: sum.splits)

lemma getSectionContent_frame:
  assumes "getSectionContent B u s = (r, s')"
  shows "trace s' = trace s @ [Goto u]" "files s' = files s"
    "traversed_pages s' = traversed_pages s"
proof -
  show "trace s' = trace s @ [Goto u]"
    using assms getSectionContent_loaded [of B s u] getSectionContent_throws [of B s u]
    by (cases "B (navigations s) u") auto
  show "files s' = files s"
    using assms getSectionContent_loaded [of B s u] getSectionContent_throws [of B s u]
    by (cases "B (navigations s) u") auto
  show "traversed_pages s' = traversed_pages s"
    using assms getSectionContent_loaded [of B s u] getSectionContent_throws [of B s u]
    by (cases "B (navigations s) u") auto
qed

lemma section_links_loop_frame:
  assumes "section_links_loop B els c s = (r, s')"
  shows "(\<exists>t. trace s' = trace s @ t \<and> list_all extraction_event t)
    \<and> files s' = files s \<and> traversed_pages s' = traversed_pages s"
  using assms
proof (induction els arbitrary: c s)
  case Nil
  then show ?case by auto
next
  case (Cons el els)
  show ?case
  proof (cases "match (replace_amp (fst el)) section_name_re")
    case False
    with Cons.prems have "section_links_loop B els c s = (r, s')"
      by (simp add: section_links_loop_skip del: section_links_loop.simps)
    then show ?thesis by (rule Cons.IH)
  next
    case True
    obtain r1 s1 where g: "getSectionContent B (snd el) s = (r1, s1)"
      by (cases "getSectionContent B (snd el) s")
    note f = getSectionContent_frame [OF g]
    show ?thesis
    proof (cases r1)
      case (Inl e)
      with True g Cons.prems have "s' = s1"
        by (simp add: section_links_loop_keep del: section_links_loop.simps)
      with f show ?thesis by auto
    next
      case (Inr d)
      let ?s2 = "log (SectionInfo (replace_amp (fst el)) (snd el)) s1"
      from Inr True g Cons.prems
      have "section_links_loop B els (AList.update (replace_amp (fst el)) d c) ?s2 = (r, s')"
        by (simp add: section_links_loop_keep del: section_links_loop.simps)
      from Cons.IH [OF this] obtain t where
        t: "trace s' = trace ?s2 @ t" "list_all extraction_event t"
        and rest: "files s' = files ?s2" "traversed_pages s' = traversed_pages ?s2"
        by blast
      have "trace s' = trace s @ (Goto (snd el)
          # ConsoleLog (SectionInfo (replace_amp (fst el)) (snd el)) # t)"
        using t(1) f(1) by (simp add: log_def)
      moreover have "list_all extraction_event (Goto (snd el)
          # ConsoleLog (SectionInfo (replace_amp (fst el)) (snd el)) # t)"
        using t(2) by simp
      ultimately have "\<exists>t. trace s' = trace s @ t \<and> list_all extraction_event t"
        by blast
      with rest f show ?thesis by (simp add: log_def)
    qed
  qed
qed

lemma getGuideline_frame:
  assumes "getGuideline B nm u s = (r, s')"
  shows "(\<exists>t. trace s' = trace s @ t \<and> list_all extraction_event t)
    \<and> files s' = files s \<and> traversed_pages s' = traversed_pages s"
proof -
  obtain r1 where "section_links_loop B (get_links s PAGE_SECTION_SELECTOR) [] s = (r1, s')"
    using assms by (auto simp: getGuideline_def Let_def split: prod.splits sum.splits)
  then show ?thesis by (rule section_links_loop_frame)
qed

lemma getGuideline_name:
  assumes "getGuideline B nm u s = (Inr g, s')"
  shows "name g = nm" "url g = u"
  using assms by (auto simp: getGuideline_def Let_def split: prod.splits sum.splits)


subsection \<open>Attempts and the retry loop\<close>

lemma paths_differ: "OUTPUT_PATH \<noteq> TOC_OUTPUT_FILE"
  by (simp add: OUTPUT_PATH_def TOC_OUTPUT_FILE_def)


lemma attempt_throws:
  assumes "attempt B page_name page_url s = (Inl e, s')"
  shows "\<exists>t. trace s' = trace s @ Sleep BACKOFF_TIMEOUT_SEC # t \<and> list_all extraction_event t"
    and "files s' = files s"
    and "traversed_pages s' = traversed_pages s"
proof -
  obtain r1 s1 where g1: "goto B page_url (sleep BACKOFF_TIMEOUT_SEC s) = (r1, s1)"
    by (cases "goto B page_url (sleep BACKOFF_TIMEOUT_SEC s)")
  note f1 = goto_frame [OF g1]
  have "(\<exists>t. trace s' = trace s @ Sleep BACKOFF_TIMEOUT_SEC # t \<and> list_all extraction_event t)
      \<and> files s' = files s \<and> traversed_pages s' = traversed_pages s"
  proof (cases r1)
    case (Inl e1)
    with g1 assms have "s' = s1" by (simp add: attempt_def)
    with f1 have "trace s' = trace s @ Sleep BACKOFF_TIMEOUT_SEC # [Goto page_url]
        \<and> list_all extraction_event [Goto page_url]"
      by (simp add: sleep_def)
    then have "\<exists>t. trace s' = trace s @ Sleep BACKOFF_TIMEOUT_SEC # t \<and> list_all extraction_event t"
      by blast
    with f1 \<open>s' = s1\<close> show ?thesis by (simp add: sleep_def)
  next
    case (Inr x1)
    obtain r2 s2 where g2: "getGuideline B page_name page_url s1 = (r2, s2)"
      by (cases "getGuideline B page_name page_url s1")
    from getGuideline_frame [OF g2] obtain t2 where
      t2: "trace s2 = trace s1 @ t2" "list_all extraction_event t2"
      and f2: "files s2 = files s1" "traversed_pages s2 = traversed_pages s1"
      by blast
    from Inr g1 g2 assms have "s' = s2"
      by (cases r2) (simp_all add: attempt_def ToBoolean_def Let_def)
    with t2 f1 have "trace s' = trace s @ Sleep BACKOFF_TIMEOUT_SEC # (Goto page_url # t2)
        \<and> list_all extraction_event (Goto page_url # t2)"
      by (simp add: sleep_def)
    then have "\<exists>t. trace s' = trace s @ Sleep BACKOFF_TIMEOUT_SEC # t \<and> list_all extraction_event t"
      by blast
    with f1 f2 \<open>s' = s2\<close> show ?thesis by (simp add: sleep_def)
  qed
  then show "\<exists>t. trace s' = trace s @ Sleep BACKOFF_TIMEOUT_SEC # t \<and> list_all extraction_event t"
    and "files s' = files s" and "traversed_pages s' = traversed_pages s"
    by blast+
qed

lemma attempt_saves:
  assumes "attempt B page_name page_url s = (Inr x, s')"
  shows "\<exists>t. trace s' = trace s @ Sleep BACKOFF_TIMEOUT_SEC # t @ [ConsoleLog SavedGuideline]
           \<and> list_all extraction_event t"
    and "\<exists>g. name g = page_name \<and> url g = page_url
           \<and> files s' = (files s)
               (OUTPUT_PATH := files s OUTPUT_PATH @ [JSON_stringify g @ [CHR 0x0A]],
                TOC_OUTPUT_FILE := files s TOC_OUTPUT_FILE @ [page_name @ [CHR 0x0A]])"
    and "traversed_pages s' = insert page_name (traversed_pages s)"
proof -
  obtain r1 s1 where g1: "goto B page_url (sleep BACKOFF_TIMEOUT_SEC s) = (r1, s1)"
    by (cases "goto B page_url (sleep BACKOFF_TIMEOUT_SEC s)")
  note f1 = goto_frame [OF g1]
  obtain x1 where r1: "r1 = Inr x1"
    using assms g1 by (cases r1) (simp_all add: attempt_def)
  obtain r2 s2 where g2: "getGuideline B page_name page_url s1 = (r2, s2)"
    by (cases "getGuideline B page_name page_url s1")
  obtain g where r2: "r2 = Inr g"
    using assms g1 r1 g2 by (cases r2) (simp_all add: attempt_def)
  from getGuideline_frame [OF g2] obtain t2 where
    t2: "trace s2 = trace s1 @ t2" "list_all extraction_event t2"
    and f2: "files s2 = files s1" "traversed_pages s2 = traversed_pages s1"
    by blast
  note nm = getGuideline_name [OF g2 [unfolded r2]]
  have s': "s' = log SavedGuideline (save_metadata (name g) TOC_OUTPUT_FILE
      ((save_guideline g OUTPUT_PATH s2)
         \<lparr>guides_saved_for_letter := Suc (guides_saved_for_letter (save_guideline g OUTPUT_PATH s2)),
          traversed_pages := insert page_name (traversed_pages (save_guideline g OUTPUT_PATH s2))\<rparr>))"
    using assms g1 r1 g2 r2 by (simp add: attempt_def ToBoolean_def Let_def)
  have "trace s' = trace s @ Sleep BACKOFF_TIMEOUT_SEC # (Goto page_url # t2) @ [ConsoleLog SavedGuideline]
      \<and> list_all extraction_event (Goto page_url # t2)"
    using t2 f1 by (simp add: s' log_def save_metadata_def save_guideline_def appendFileSync_def sleep_def)
  then show "\<exists>t. trace s' = trace s @ Sleep BACKOFF_TIMEOUT_SEC # t @ [ConsoleLog SavedGuideline]
           \<and> list_all extraction_event t"
    by blast
  have "files s' = (files s)
      (OUTPUT_PATH := files s OUTPUT_PATH @ [JSON_stringify g @ [CHR 0x0A]],
       TOC_OUTPUT_FILE := files s TOC_OUTPUT_FILE @ [page_name @ [CHR 0x0A]])"
    using f1 f2 nm paths_differ
    by (simp add: s' log_def save_metadata_def save_guideline_def appendFileSync_def sleep_def)
  with nm show "\<exists>g. name g = page_name \<and> url g = page_url
           \<and> files s' = (files s)
               (OUTPUT_PATH := files s OUTPUT_PATH @ [JSON_stringify g @ [CHR 0x0A]],
                TOC_OUTPUT_FILE := files s TOC_OUTPUT_FILE @ [page_name @ [CHR 0x0A]])"
    by blast
  show "traversed_pages s' = insert page_name (traversed_pages s)"
    using f1 f2
    by (simp add: s' log_def save_metadata_def save_guideline_def appendFileSync_def sleep_def)
qed

lemma retry_loop_done:
  "\<not> i < 5 \<Longrightarrow> retry_loop B page_name page_url i s = (False, s)"
  by (subst retry_loop.simps) simp

lemma retry_loop_saved:
  "i < 5 \<Longrightarrow> attempt B page_name page_url s = (Inr x, s1) \<Longrightarrow>
   retry_loop B page_name page_url i s = (True, s1)"
  by (subst retry_loop.simps) simp

lemma retry_loop_retry:
  "i < 5 \<Longrightarrow> attempt B page_name page_url s = (Inl e, s1) \<Longrightarrow>
   retry_loop B page_name page_url i s =
     retry_loop B page_name page_url (Suc i)
       (sleep FAILURE_BACKOFF_TIMEOUT_SEC (log (ErrorRetrying page_name e) s1))"
  by (subst retry_loop.simps) simp








subsection \<open>C3: a visited name is skipped, and names in the sink are not repeated\<close>

lemma saved_once_cong:
  "files s' OUTPUT_PATH = files s OUTPUT_PATH \<Longrightarrow> traversed_pages s' = traversed_pages s \<Longrightarrow>
   saved_once s0 s' = saved_once s0 s"
  by (simp add: saved_once_def)

lemma saved_once_log: "saved_once s0 (log m s) = saved_once s0 s"
  by (rule saved_once_cong) (simp_all add: log_def)

lemma saved_once_attempt:
  assumes "saved_once s0 s" "page_name \<notin> traversed_pages s"
    and "attempt B page_name page_url s = (r, s')"
  shows "saved_once s0 s'"
proof (cases r)
  case (Inl e)
  from attempt_throws(2,3) [OF assms(3) [unfolded Inl]] assms(1) show ?thesis
    using saved_once_cong [of s' s s0] by simp
next
  case (Inr x)
  from attempt_saves(2,3) [OF assms(3) [unfolded Inr]] obtain g where
    g: "name g = page_name"
      "files s' = (files s)
         (OUTPUT_PATH := files s OUTPUT_PATH @ [JSON_stringify g @ [CHR 0x0A]],
          TOC_OUTPUT_FILE := files s TOC_OUTPUT_FILE @ [page_name @ [CHR 0x0A]])"
    and v: "traversed_pages s' = insert page_name (traversed_pages s)"
    by blast
  from assms(1) obtain gs where
    gs: "files s OUTPUT_PATH = files s0 OUTPUT_PATH @ map (\<lambda>g. JSON_stringify g @ [CHR 0x0A]) gs"
      "name ` set gs \<subseteq> traversed_pages s" "distinct (map name gs)"
    by (auto simp: saved_once_def)
  have "files s' OUTPUT_PATH
      = files s0 OUTPUT_PATH @ map (\<lambda>g. JSON_stringify g @ [CHR 0x0A]) (gs @ [g])"
    using g(2) gs(1) paths_differ by simp
  moreover have "name ` set (gs @ [g]) \<subseteq> traversed_pages s'"
    using gs(2) g(1) v by auto
  moreover have "distinct (map name (gs @ [g]))"
    using gs(2,3) g(1) assms(2) by auto
  ultimately show ?thesis
    unfolding saved_once_def by blast
qed

lemma retry_loop_saved_once:
  assumes "retry_loop B page_name page_url i s = (guideline_saved, s')"
    and "saved_once s0 s" "page_name \<notin> traversed_pages s"
  shows "saved_once s0 s'"
  using assms
proof (induction k \<equiv> "5 - i" arbitrary: i s)
  case 0
  then show ?case by (simp add: retry_loop_done)
next
  case (Suc k)
  then have i: "i < 5" "k = 5 - Suc i" by simp_all
  obtain r s1 where a: "attempt B page_name page_url s = (r, s1)"
    by (cases "attempt B page_name page_url s")
  have s1: "saved_once s0 s1"
    using Suc.prems(2,3) a by (rule saved_once_attempt)
  show ?case
  proof (cases r)
    case (Inr x)
    with a i Suc.prems(1) have "s' = s1" by (simp add: retry_loop_saved)
    with s1 show ?thesis by simp
  next
    case (Inl e)
    let ?s2 = "sleep FAILURE_BACKOFF_TIMEOUT_SEC (log (ErrorRetrying page_name e) s1)"
    from a Inl i Suc.prems(1)
    have rec: "retry_loop B page_name page_url (Suc i) ?s2 = (guideline_saved, s')"
      by (simp add: retry_loop_retry)
    have f: "files ?s2 = files s1" "traversed_pages ?s2 = traversed_pages s1"
      by (simp_all add: sleep_def log_def)
    have "saved_once s0 ?s2"
      using s1 f saved_once_cong [of ?s2 s1 s0] by simp
    moreover have "page_name \<notin> traversed_pages ?s2"
      using attempt_throws(3) [OF a [unfolded Inl]] Suc.prems(3) f by simp
    ultimately show ?thesis
      using Suc.hyps(1) [OF i(2) rec] by blast
  qed
qed

lemma toc_entry_saved_once:
  assumes "saved_once s0 s"
  shows "saved_once s0 (toc_entry B toc_index toc_length el s)"
proof -
  let ?s1 = "log (GuidelineInfo toc_index toc_length (fst el) (snd el)) s"
  have s1: "saved_once s0 ?s1"
    using assms by (simp add: saved_once_log)
  show ?thesis
  proof (cases "fst el \<in> traversed_pages ?s1 \<or> \<not> match (snd el) diseases_re
      \<or> \<not> (match (snd el) symptoms_causes_re \<or> match (snd el) diagnosis_treatment_re)")
    case True
    then have "\<exists>m. toc_entry B toc_index toc_length el s = log m ?s1"
      by (auto simp: toc_entry_def Let_def)
    with s1 show ?thesis by (auto simp: saved_once_log)
  next
    case False
    obtain b s2 where r: "retry_loop B (fst el) (snd el) 0 ?s1 = (b, s2)"
      by (cases "retry_loop B (fst el) (snd el) 0 ?s1")
    have "saved_once s0 s2"
      using s1 False by (intro retry_loop_saved_once [OF r]) (auto simp: log_def)
    moreover from False r have "toc_entry B toc_index toc_length el s
        = (if \<not> b then log (AllAttemptsFailed (fst el)) s2 else s2)"
      by (simp add: toc_entry_def Let_def)
    ultimately show ?thesis by (simp add: saved_once_log)
  qed
qed

lemma toc_loop_saved_once:
  "saved_once s0 s \<Longrightarrow> saved_once s0 (toc_loop B toc_length toc_index els s)"
  by (induction els arbitrary: toc_index s) (simp_all add: toc_entry_saved_once)

lemma saved_once_updates:
  "saved_once s0 (s\<lparr>scrape_summary := x\<rparr>) = saved_once s0 s"
  "saved_once s0 (s\<lparr>guides_saved_for_letter := n\<rparr>) = saved_once s0 s"
  "saved_once s0 (waitForTimeout ms s) = saved_once s0 s"
  "saved_once s0 (sleep ms s) = saved_once s0 s"
  by (simp_all add: saved_once_def waitForTimeout_def sleep_def)

lemma letter_body_saved_once:
  assumes "saved_once s0 s" "letter_body B c s = (r, s')"
  shows "saved_once s0 s'"
proof -
  let ?url = "TOC_URL @ ''?letter='' @ [char_of c]"
  obtain r1 s1 where g: "goto B ?url (s\<lparr>guides_saved_for_letter := 0\<rparr>) = (r1, s1)"
    by (cases "goto B ?url (s\<lparr>guides_saved_for_letter := 0\<rparr>)")
  from goto_frame(2,3) [OF g] assms(1) have s1: "saved_once s0 s1"
    using saved_once_cong [of s1 s s0] by simp
  have "saved_once s0 (snd (letter_body B c s))"
  proof (cases r1)
    case (Inl e)
    with g s1 show ?thesis by (simp add: letter_body_def Let_def)
  next
    case (Inr x)
    with g s1 show ?thesis
      by (simp add: letter_body_def Let_def saved_once_log saved_once_updates toc_loop_saved_once)
  qed
  with assms(2) show ?thesis by simp
qed

lemma letters_loop_done:
  "\<not> c \<le> 90 \<Longrightarrow> letters_loop B c s = (Inr (), s)"
  by (subst letters_loop.simps) simp

lemma letters_loop_abort:
  "c \<le> 90 \<Longrightarrow> letter_body B c s = (Inl e, s1) \<Longrightarrow> letters_loop B c s = (Inl e, s1)"
  by (subst letters_loop.simps) simp

lemma letters_loop_next:
  "c \<le> 90 \<Longrightarrow> letter_body B c s = (Inr x, s1) \<Longrightarrow>
   letters_loop B c s = letters_loop B (Suc c) s1"
  by (subst letters_loop.simps) simp

lemma letters_loop_saved_once:
  assumes "saved_once s0 s" "letters_loop B c s = (r, s')"
  shows "saved_once s0 s'"
  using assms
proof (induction k \<equiv> "91 - c" arbitrary: c s)
  case 0
  then show ?case by (simp add: letters_loop_done)
next
  case (Suc k)
  then have c: "c \<le> 90" "k = 91 - Suc c" by simp_all
  obtain r1 s1 where b: "letter_body B c s = (r1, s1)"
    by (cases "letter_body B c s")
  have s1: "saved_once s0 s1"
    using Suc.prems(1) b by (rule letter_body_saved_once)
  show ?case
  proof (cases r1)
    case (Inl e)
    with b c Suc.prems(2) have "s' = s1" by (simp add: letters_loop_abort)
    with s1 show ?thesis by simp
  next
    case (Inr x)
    with b c Suc.prems(2) have "letters_loop B (Suc c) s1 = (r, s')"
      by (simp add: letters_loop_next)
    from Suc.hyps(1) [OF c(2) s1 this] show ?thesis .
  qed
qed

lemma scrape_saved_once:
  "saved_once s (snd (scrape B s))"
proof -
  let ?s0 = "s\<lparr>traversed_pages := {}, scrape_summary := []\<rparr>"
  have "saved_once s ?s0"
    unfolding saved_once_def by (intro exI [of _ "[]"]) simp
  moreover obtain r s1 where l: "letters_loop B 65 ?s0 = (r, s1)"
    by (cases "letters_loop B 65 ?s0")
  ultimately have "saved_once s s1"
    by (rule letters_loop_saved_once)
  with l show ?thesis
    by (cases r) (simp_all add: scrape_def saved_once_log)
qed

text \<open>
  C3. A TOC pair whose name is in the visited set only adds two console lines to the
  trace, whatever its URL: no navigation, no pause and no sink entry. Over a whole
  \<^const>\<open>scrape\<close>, the records appended to the sink have pairwise distinct names.
\<close>

theorem visited_name_is_skipped:
  "(page_name \<in> traversed_pages s \<longrightarrow>
      toc_entry B toc_index toc_length (page_name, page_url) s
        = s\<lparr>trace := trace s @ [ConsoleLog (GuidelineInfo toc_index toc_length page_name page_url),
                                  ConsoleLog (AlreadySaved page_name)]\<rparr>)
   \<and> (\<exists>gs. files (snd (scrape B s)) OUTPUT_PATH
          = files s OUTPUT_PATH @ map (\<lambda>g. JSON_stringify g @ [CHR 0x0A]) gs
        \<and> distinct (map name gs))"
proof -
  have "toc_entry B toc_index toc_length (page_name, page_url) s
        = s\<lparr>trace := trace s @ [ConsoleLog (GuidelineInfo toc_index toc_length page_name page_url),
                                  ConsoleLog (AlreadySaved page_name)]\<rparr>"
    if "page_name \<in> traversed_pages s"
    using that by (simp add: toc_entry_def Let_def log_def)
  moreover have "\<exists>gs. files (snd (scrape B s)) OUTPUT_PATH
          = files s OUTPUT_PATH @ map (\<lambda>g. JSON_stringify g @ [CHR 0x0A]) gs
        \<and> distinct (map name gs)"
    using scrape_saved_once [of s B] unfolding saved_once_def by blast
  ultimately show ?thesis by blast
qed

text \<open>
  The name \<open>Acne\<close> is visited; the pair with the URL of its Diagnosis page is skipped.
\<close>

theorem visited_name_is_skipped_witness:
  "toc_entry (always acne_page) 1 2 (''Acne'', acne_diagnosis_url) (fresh_run\<lparr>traversed_pages := {''Acne''}\<rparr>)
     = fresh_run\<lparr>traversed_pages := {''Acne''},
         trace := [ConsoleLog (GuidelineInfo 1 2 ''Acne'' acne_diagnosis_url),
                   ConsoleLog (AlreadySaved ''Acne'')]\<rparr>"
proof -
  have "''Acne'' \<in> traversed_pages (fresh_run\<lparr>traversed_pages := {''Acne''}\<rparr>)"
    by simp
  with visited_name_is_skipped [of "''Acne''" "fresh_run\<lparr>traversed_pages := {''Acne''}\<rparr>"
      "always acne_page" 1 2 acne_diagnosis_url]
  show ?thesis by (simp add: fresh_run_def)
qed

subsection \<open>C4: five attempts, each failure followed by the long pause\<close>

lemma attempt_down:
  "attempt down page_name page_url s =
     (Inl (Error ''net::ERR_CONNECTION_RESET''),
      s\<lparr>navigations := Suc (navigations s),
        trace := trace s @ [Sleep BACKOFF_TIMEOUT_SEC, Goto page_url]\<rparr>)"
  by (simp add: attempt_def goto_def down_def sleep_def Let_def)

lemma acne_url_accepted:
  "match acne_url diseases_re" "match acne_url symptoms_causes_re"
  by code_simp+

lemma toc_entry_down:
  "toc_entry down 0 1 (''Acne'', acne_url) fresh_run =
     fresh_run\<lparr>navigations := 5,
       trace := ConsoleLog (GuidelineInfo 0 1 ''Acne'' acne_url)
         # concat (replicate 5
             [Sleep BACKOFF_TIMEOUT_SEC, Goto acne_url,
              ConsoleLog (ErrorRetrying ''Acne'' (Error ''net::ERR_CONNECTION_RESET'')),
              Sleep FAILURE_BACKOFF_TIMEOUT_SEC])
         @ [ConsoleLog (AllAttemptsFailed ''Acne'')]\<rparr>"
  by (simp add: toc_entry_def Let_def acne_url_accepted fresh_run_def retry_loop.simps
      attempt_down log_def sleep_def numeral_eq_Suc)



subsection \<open>C5: the URL filters\<close>

text \<open>
  C5. A TOC pair whose URL does not match \<^verbatim>\<open>/mayoclinic.org\/diseases-conditions/\<close>,
  or matches neither \<^verbatim>\<open>/\/symptoms-causes/\<close> nor \<^verbatim>\<open>/\/diagnosis-treatment/\<close>, only
  adds two console lines to the trace: there is no pause, no navigation, no file is
  appended to and the visited set is unchanged. Conversely, when \<^const>\<open>toc_entry\<close>
  navigates, the URL has passed both filters.
\<close>

theorem url_filters_skip:
  "(\<not> match page_url diseases_re
      \<or> (\<not> match page_url symptoms_causes_re \<and> \<not> match page_url diagnosis_treatment_re)
    \<longrightarrow> (\<exists>m. toc_entry B toc_index toc_length (page_name, page_url) s
          = s\<lparr>trace := trace s @ [ConsoleLog (GuidelineInfo toc_index toc_length page_name page_url),
                                    ConsoleLog m]\<rparr>))
   \<and> (navigations (toc_entry B toc_index toc_length (page_name, page_url) s) \<noteq> navigations s
    \<longrightarrow> match page_url diseases_re
        \<and> (match page_url symptoms_causes_re \<or> match page_url diagnosis_treatment_re))"
proof -
  have skip: "\<exists>m. toc_entry B toc_index toc_length (page_name, page_url) s
          = s\<lparr>trace := trace s @ [ConsoleLog (GuidelineInfo toc_index toc_length page_name page_url),
                                    ConsoleLog m]\<rparr>"
    if "\<not> match page_url diseases_re
      \<or> (\<not> match page_url symptoms_causes_re \<and> \<not> match page_url diagnosis_treatment_re)"
    using that by (auto simp: toc_entry_def Let_def log_def)
  then have "navigations (toc_entry B toc_index toc_length (page_name, page_url) s) = navigations s"
    if "\<not> match page_url diseases_re
      \<or> (\<not> match page_url symptoms_causes_re \<and> \<not> match page_url diagnosis_treatment_re)"
    using that by fastforce
  with skip show ?thesis by blast
qed

text \<open>
  A URL outside the diseases section and a URL of the Doctors tab are skipped; the URL
  of the sample guideline is navigated to.
\<close>

theorem url_filters_skip_witness:
  "(\<exists>m. toc_entry down 0 2 (''Exercise'', lifestyle_url) fresh_run
      = fresh_run\<lparr>trace := trace fresh_run
          @ [ConsoleLog (GuidelineInfo 0 2 ''Exercise'' lifestyle_url), ConsoleLog m]\<rparr>)
   \<and> (\<exists>m. toc_entry down 1 2 (''Acne'', acne_doctors_url) fresh_run
      = fresh_run\<lparr>trace := trace fresh_run
          @ [ConsoleLog (GuidelineInfo 1 2 ''Acne'' acne_doctors_url), ConsoleLog m]\<rparr>)
   \<and> navigations (toc_entry down 0 1 (''Acne'', acne_url) fresh_run) \<noteq> navigations fresh_run
   \<and> match acne_url diseases_re
   \<and> (match acne_url symptoms_causes_re \<or> match acne_url diagnosis_treatment_re)"
proof -
  have a: "\<not> match lifestyle_url diseases_re"
    by code_simp
  have b: "\<not> match acne_doctors_url symptoms_causes_re \<and> \<not> match acne_doctors_url diagnosis_treatment_re"
    by code_simp
  have c: "navigations (toc_entry down 0 1 (''Acne'', acne_url) fresh_run) \<noteq> navigations fresh_run"
    by (simp only: toc_entry_down) (simp add: fresh_run_def)
  show ?thesis
    using url_filters_skip [of lifestyle_url down 0 2 "''Exercise''" fresh_run]
      url_filters_skip [of acne_doctors_url down 1 2 "''Acne''" fresh_run]
      url_filters_skip [of acne_url down 0 1 "''Acne''" fresh_run] a b c
    by blast
qed

subsection \<open>C2: a record with empty content is saved\<close>

lemma attempt_blank:
  "attempt (always blank_page) page_name page_url s =
     (Inr (),
      s\<lparr>navigations := Suc (navigations s),
        loaded := blank_page,
        files := (files s)
          (OUTPUT_PATH := files s OUTPUT_PATH
             @ [JSON_stringify \<lparr>name = page_name, url = page_url, content = []\<rparr> @ [CHR 0x0A]],
           TOC_OUTPUT_FILE := files s TOC_OUTPUT_FILE @ [page_name @ [CHR 0x0A]]),
        trace := trace s @ [Sleep BACKOFF_TIMEOUT_SEC, Goto page_url, ConsoleLog SavedGuideline],
        traversed_pages := insert page_name (traversed_pages s),
        guides_saved_for_letter := Suc (guides_saved_for_letter s)\<rparr>)"
  using paths_differ
  by (simp add: attempt_def goto_def always_def sleep_def Let_def getGuideline_def get_links_def
      blank_page_def ToBoolean_def save_guideline_def save_metadata_def appendFileSync_def log_def
      fun_upd_twist)

text \<open>
  C2 fails on the code. The browser shows a page without tabs for every URL (such as an
  interstitial page). \<^const>\<open>getGuideline\<close> returns a record with the empty content
  \<^verbatim>\<open>{}\<close>, the condition \<^verbatim>\<open>!guideline.content\<close> is false for it, and the first attempt
  appends the record to the sink and marks the name as visited; nothing is retried.
\<close>

theorem empty_content_is_saved:
  "fst (getGuideline (always blank_page) ''Acne'' acne_url (fresh_run\<lparr>loaded := blank_page\<rparr>))
     = Inr \<lparr>name = ''Acne'', url = acne_url, content = []\<rparr>
   \<and> files (toc_entry (always blank_page) 0 1 (''Acne'', acne_url) fresh_run) OUTPUT_PATH
     = [JSON_stringify \<lparr>name = ''Acne'', url = acne_url, content = []\<rparr> @ [CHR 0x0A]]
   \<and> JSON_stringify \<lparr>name = ''Acne'', url = acne_url, content = []\<rparr>
     = ''{'' @ [CHR 0x22] @ ''name'' @ [CHR 0x22] @ '':'' @ [CHR 0x22] @ ''Acne'' @ [CHR 0x22]
       @ '','' @ [CHR 0x22] @ ''url'' @ [CHR 0x22] @ '':'' @ [CHR 0x22] @ acne_url @ [CHR 0x22]
       @ '','' @ [CHR 0x22] @ ''content'' @ [CHR 0x22] @ '':{}}''
   \<and> ''Acne'' \<in> traversed_pages (toc_entry (always blank_page) 0 1 (''Acne'', acne_url) fresh_run)
   \<and> trace (toc_entry (always blank_page) 0 1 (''Acne'', acne_url) fresh_run)
     = [ConsoleLog (GuidelineInfo 0 1 ''Acne'' acne_url), Sleep BACKOFF_TIMEOUT_SEC, Goto acne_url,
        ConsoleLog SavedGuideline]"
proof -
  have g: "fst (getGuideline (always blank_page) ''Acne'' acne_url (fresh_run\<lparr>loaded := blank_page\<rparr>))
     = Inr \<lparr>name = ''Acne'', url = acne_url, content = []\<rparr>"
    by (simp add: getGuideline_def get_links_def blank_page_def Let_def)
  have j: "JSON_stringify \<lparr>name = ''Acne'', url = acne_url, content = []\<rparr>
     = ''{'' @ [CHR 0x22] @ ''name'' @ [CHR 0x22] @ '':'' @ [CHR 0x22] @ ''Acne'' @ [CHR 0x22]
       @ '','' @ [CHR 0x22] @ ''url'' @ [CHR 0x22] @ '':'' @ [CHR 0x22] @ acne_url @ [CHR 0x22]
       @ '','' @ [CHR 0x22] @ ''content'' @ [CHR 0x22] @ '':{}}''"
    by code_simp
  have t: "toc_entry (always blank_page) 0 1 (''Acne'', acne_url) fresh_run
      = snd (attempt (always blank_page) ''Acne'' acne_url
          (log (GuidelineInfo 0 1 ''Acne'' acne_url) fresh_run))"
    by (simp add: toc_entry_def Let_def acne_url_accepted retry_loop.simps attempt_blank)
      (simp add: log_def fresh_run_def)
  show ?thesis
    unfolding t attempt_blank using g j paths_differ
    by (simp add: log_def fresh_run_def)
qed

subsection \<open>C8: no console line when no selector matches\<close>

text \<open>
  C8 fails on the code. On a page where neither \<^verbatim>\<open>div.content\<close> nor the fallback
  matches, \<^const>\<open>getSectionContent\<close> returns the empty dictionary and logs nothing:
  the list \<^verbatim>\<open>selectors\<close> always has three entries, so the branch with the console
  line is never taken.
\<close>

theorem no_selector_no_log:
  "getSectionContent (always blank_page) acne_url fresh_run
     = (Inr [], fresh_run\<lparr>navigations := 1, trace := [Goto acne_url]\<rparr>)
   \<and> ConsoleLog CouldntFindContentSelector
       \<notin> set (trace (snd (getSectionContent (always blank_page) acne_url fresh_run)))"
proof -
  have "always blank_page (navigations fresh_run) acne_url = Inr blank_page"
    by (simp add: always_def)
  then have "getSectionContent (always blank_page) acne_url fresh_run =
      (Inr (classify (query_all blank_page
        (if exists_sel blank_page ''div.content'' then ''div.content li, div.content h2, div.content p''
         else ''div.aem-GridColumn section li, div.aem-GridColumn section h2, div.aem-GridColumn section p''))),
       fresh_run\<lparr>navigations := Suc (navigations fresh_run),
         trace := trace fresh_run @ [Goto acne_url], loaded := blank_page\<rparr>)"
    by (rule getSectionContent_loaded)
  then show ?thesis
    by (simp add: blank_page_def classify_def fresh_run_def)
qed

subsection \<open>C9: a line of the sink parses back to the record\<close>



































end
